theory Spec2Isabelle
  imports Complex_Main
begin

section \<open>The screensaver's animation engine (screensaver.js)\<close>

text \<open>
  The model follows \<^verbatim>\<open>screensaver.js\<close> class by class. JavaScript numbers are
  modelled as \<^typ>\<open>real\<close>: the arithmetic of the source is taken exactly, without the
  rounding of IEEE doubles. Objects that are shared and mutated through several references
  (nodes and packets) live in explicit heaps, and a reference is an index into the heap;
  every other object is held by one owner only and is a plain record value.
\<close>

subsection \<open>Math.random\<close>

text \<open>
  \<^verbatim>\<open>Math.random()\<close> is the sequence of its successive results: \<open>rnd k\<close> is the result of
  call number \<open>k\<close> of the program. Every function that draws random numbers takes the
  number of calls made so far and returns the number made after it.
  The results of \<^verbatim>\<open>Math.random()\<close> lie in \<open>[0, 1)\<close>.
\<close>

type_synonym random = "nat \<Rightarrow> real"

definition valid_random :: "random \<Rightarrow> bool" where
  "valid_random rnd \<longleftrightarrow> (\<forall>k. 0 \<le> rnd k \<and> rnd k < 1)"

definition rnd_zero :: random where
  "rnd_zero k = 0"

definition rnd_half :: random where
  "rnd_half k = 1 / 2"

subsection \<open>Utilities\<close>

definition lerp :: "real \<Rightarrow> real \<Rightarrow> real \<Rightarrow> real" where
  "lerp a b t = a + (b - a) * t"

datatype error = TypeError

subsection \<open>Matrix rain\<close>

record MatrixColumn =
  col_x :: real
  col_y :: real
  col_speed :: real

text \<open>The constructor draws \<open>y\<close> first and the speed second.\<close>

definition MatrixColumn_new :: "random \<Rightarrow> nat \<Rightarrow> real \<Rightarrow> real \<Rightarrow> MatrixColumn \<times> nat" where
  "MatrixColumn_new rnd k x height =
     (\<lparr>col_x = x, col_y = rnd k * - height, col_speed = 50 + rnd (k + 1) * 150\<rparr>, k + 2)"

definition MatrixColumn_update ::
  "random \<Rightarrow> nat \<Rightarrow> real \<Rightarrow> real \<Rightarrow> MatrixColumn \<Rightarrow> MatrixColumn \<times> nat" where
  "MatrixColumn_update rnd k dt height c =
     (let y = col_y c + col_speed c * dt
      in if y > height + 100 then (c\<lparr>col_y := rnd k * - height\<rparr>, k + 1)
         else (c\<lparr>col_y := y\<rparr>, k))"

text \<open>
  \<^verbatim>\<open>MatrixColumn.draw\<close> changes no field; it calls \<^verbatim>\<open>Math.random()\<close> once per glyph,
  \<^verbatim>\<open>Math.ceil(height / 16) + 5\<close> glyphs per column.
\<close>

definition MatrixColumn_draw :: "nat \<Rightarrow> real \<Rightarrow> MatrixColumn \<Rightarrow> nat" where
  "MatrixColumn_draw k height c = k + nat (\<lceil>height / 16\<rceil> + 5)"

text \<open>
  \<^verbatim>\<open>this.spacing\<close> is set to 16 by the constructor of \<^verbatim>\<open>MatrixRainSystem\<close> and assigned
  nowhere else.
\<close>

definition spacing :: real where
  "spacing = 16"

record MatrixRainSystem =
  columns :: "MatrixColumn list"

text \<open>The loop \<^verbatim>\<open>for (let x = 0; x < width; x += this.spacing)\<close> of \<^verbatim>\<open>reset\<close>.\<close>

function reset_loop ::
  "random \<Rightarrow> nat \<Rightarrow> real \<Rightarrow> real \<Rightarrow> real \<Rightarrow> MatrixColumn list \<Rightarrow> MatrixColumn list \<times> nat" where
  "reset_loop rnd k x width height cols =
     (if x < width
      then reset_loop rnd (snd (MatrixColumn_new rnd k x height)) (x + spacing) width height
             (cols @ [fst (MatrixColumn_new rnd k x height)])
      else (cols, k))"
  by pat_completeness auto
termination
proof (relation "measure (\<lambda>(rnd, k, x, width, height, cols). nat \<lceil>(width - x) / 16\<rceil>)")
  show "wf (measure (\<lambda>(rnd :: random, k :: nat, x :: real, width :: real, height :: real,
      cols :: MatrixColumn list). nat \<lceil>(width - x) / 16\<rceil>))"
    by simp
next
  fix rnd :: random and k :: nat and x width height :: real and cols :: "MatrixColumn list"
  assume lt: "x < width"
  have "(width - (x + spacing)) / 16 = (width - x) / 16 - 1"
    by (simp add: field_simps spacing_def)
  then have step: "\<lceil>(width - (x + spacing)) / 16\<rceil> = \<lceil>(width - x) / 16\<rceil> - 1"
    by (simp only: ceiling_diff_one)
  have pos: "0 < \<lceil>(width - x) / 16\<rceil>"
    using lt by simp
  show "((rnd, snd (MatrixColumn_new rnd k x height), x + spacing, width, height,
          cols @ [fst (MatrixColumn_new rnd k x height)]),
         (rnd, k, x, width, height, cols))
        \<in> measure (\<lambda>(rnd, k, x, width, height, cols). nat \<lceil>(width - x) / 16\<rceil>)"
    using step pos by simp
qed

declare reset_loop.simps [simp del]

definition MatrixRainSystem_reset ::
  "random \<Rightarrow> nat \<Rightarrow> real \<Rightarrow> real \<Rightarrow> MatrixRainSystem \<Rightarrow> MatrixRainSystem \<times> nat" where
  "MatrixRainSystem_reset rnd k width height m =
     (let (cols, k') = reset_loop rnd k 0 width height []
      in (m\<lparr>columns := cols\<rparr>, k'))"

definition MatrixRainSystem_new :: "random \<Rightarrow> nat \<Rightarrow> real \<Rightarrow> real \<Rightarrow> MatrixRainSystem \<times> nat" where
  "MatrixRainSystem_new rnd k width height =
     MatrixRainSystem_reset rnd k width height \<lparr>columns = []\<rparr>"

text \<open>\<^verbatim>\<open>this.columns.forEach(col => col.update(dt, height))\<close>, in the order of the array.\<close>

fun update_columns ::
  "random \<Rightarrow> nat \<Rightarrow> real \<Rightarrow> real \<Rightarrow> MatrixColumn list \<Rightarrow> MatrixColumn list \<times> nat" where
  "update_columns rnd k dt height [] = ([], k)"
| "update_columns rnd k dt height (c # cs) =
     (let (c', k') = MatrixColumn_update rnd k dt height c;
          (cs', k'') = update_columns rnd k' dt height cs
      in (c' # cs', k''))"

definition MatrixRainSystem_update ::
  "random \<Rightarrow> nat \<Rightarrow> real \<Rightarrow> real \<Rightarrow> real \<Rightarrow> MatrixRainSystem \<Rightarrow> MatrixRainSystem \<times> nat" where
  "MatrixRainSystem_update rnd k dt width height m =
     (let (cols, k') = update_columns rnd k dt height (columns m)
      in (m\<lparr>columns := cols\<rparr>, k'))"

definition MatrixRainSystem_draw :: "nat \<Rightarrow> real \<Rightarrow> MatrixRainSystem \<Rightarrow> nat" where
  "MatrixRainSystem_draw k height m = fold (\<lambda>c k. MatrixColumn_draw k height c) (columns m) k"

text \<open>A sequence of calls of \<^verbatim>\<open>MatrixRainSystem.update\<close>, each with its \<open>(dt, width, height)\<close>.\<close>

fun MatrixRainSystem_updates ::
  "random \<Rightarrow> nat \<Rightarrow> (real \<times> real \<times> real) list \<Rightarrow> MatrixRainSystem \<Rightarrow> MatrixRainSystem \<times> nat" where
  "MatrixRainSystem_updates rnd k [] m = (m, k)"
| "MatrixRainSystem_updates rnd k ((dt, width, height) # calls) m =
     (let (m', k') = MatrixRainSystem_update rnd k dt width height m
      in MatrixRainSystem_updates rnd k' calls m')"

text \<open>
  A column over a sequence of calls of \<^verbatim>\<open>update\<close>. Between two updates of one column the
  program draws random numbers for other objects; here the column draws at consecutive
  positions. The draws of the column in the program are a subsequence of \<open>rnd\<close>, itself a
  sequence in \<open>[0, 1)\<close>, so what holds here for every \<open>rnd\<close> holds of the column in the
  program.
\<close>

fun MatrixColumn_updates ::
  "random \<Rightarrow> nat \<Rightarrow> real list \<Rightarrow> real \<Rightarrow> MatrixColumn \<Rightarrow> MatrixColumn \<times> nat" where
  "MatrixColumn_updates rnd k [] height c = (c, k)"
| "MatrixColumn_updates rnd k (dt # dts) height c =
     (let (c', k') = MatrixColumn_update rnd k dt height c
      in MatrixColumn_updates rnd k' dts height c')"

subsection \<open>Code chunks\<close>

datatype chunk_state = fadeIn | hold | fadeOut

text \<open>
  \<^verbatim>\<open>holdTime\<close> is not a field of a chunk before the chunk enters \<^verbatim>\<open>hold\<close>: it is
  \<open>None\<close> until then. \<^verbatim>\<open>textLines\<close> is \<open>None\<close> when \<^verbatim>\<open>randomSnippet\<close> indexes outside
  its array.
\<close>

record CodeChunk =
  direction :: int
  chunk_speed :: real
  alpha :: real
  state :: chunk_state
  chunk_y :: real
  chunk_x :: real
  textLines :: "string list option"
  holdTime :: "real option"

definition CodeChunk_new ::
  "random \<Rightarrow> nat \<Rightarrow> real \<Rightarrow> real \<Rightarrow> string list option \<Rightarrow> int \<Rightarrow> CodeChunk \<times> nat" where
  "CodeChunk_new rnd k width height lines dir =
     (\<lparr>direction = dir,
       chunk_speed = 20 + rnd k * 40,
       alpha = 0,
       state = fadeIn,
       chunk_y = 50 + rnd (k + 1) * (height - 100),
       chunk_x = (if dir = 1 then - 300 else width + 300),
       textLines = lines,
       holdTime = None\<rparr>, k + 2)"

text \<open>
  In \<^verbatim>\<open>hold\<close> with no \<^verbatim>\<open>holdTime\<close> the source computes \<^verbatim>\<open>undefined - dt\<close>, which is
  NaN, and \<^verbatim>\<open>NaN <= 0\<close> is false: the chunk stays as it is.
\<close>

definition CodeChunk_update :: "random \<Rightarrow> nat \<Rightarrow> real \<Rightarrow> CodeChunk \<Rightarrow> CodeChunk \<times> nat" where
  "CodeChunk_update rnd k dt c =
     (let c1 = c\<lparr>chunk_x := chunk_x c + of_int (direction c) * chunk_speed c * dt\<rparr>
      in case state c1 of
           fadeIn \<Rightarrow>
             (let c2 = c1\<lparr>alpha := alpha c1 + dt * 0.5\<rparr>
              in if alpha c2 \<ge> 0.8
                 then (c2\<lparr>alpha := 0.8, state := hold, holdTime := Some (2 + rnd k * 3)\<rparr>, k + 1)
                 else (c2, k))
         | hold \<Rightarrow>
             (case holdTime c1 of
                None \<Rightarrow> (c1, k)
              | Some h \<Rightarrow>
                  (let c2 = c1\<lparr>holdTime := Some (h - dt)\<rparr>
                   in if h - dt \<le> 0 then (c2\<lparr>state := fadeOut\<rparr>, k) else (c2, k)))
         | fadeOut \<Rightarrow> (c1\<lparr>alpha := alpha c1 - dt * 0.3\<rparr>, k))"

definition isDead :: "real \<Rightarrow> CodeChunk \<Rightarrow> bool" where
  "isDead width c \<longleftrightarrow> alpha c \<le> 0 \<and> (chunk_x c < - 400 \<or> chunk_x c > width + 400)"

record CodeChunkSystem =
  chunks :: "CodeChunk list"
  timer :: real

definition CodeChunkSystem_new :: CodeChunkSystem where
  "CodeChunkSystem_new = \<lparr>chunks = [], timer = 0\<rparr>"

definition snippets :: "string list list" where
  \<open>snippets =
    [[''for (let i = 0; i < nodes.length; i++) {'', ''  sendPacket(hacker, nodes[i]);'', ''}''],
     [''def exploit(target):'', ''    payload = build_payload(target)'', ''    send(payload)'',
      ''    return get_shell()''],
     [''<div class="node hacked">'', ''  <span>&#9760; root access</span>'', ''</div>''],
     [''0x48 0x45 0x4C 0x4C 0x4F'', ''0x52 0x4F 0x4F 0x54'']]\<close>

text \<open>Reading an array at an index: \<open>None\<close> is JavaScript's \<^verbatim>\<open>undefined\<close>.\<close>

definition index :: "'a list \<Rightarrow> int \<Rightarrow> 'a option" where
  "index xs i = (if 0 \<le> i \<and> i < int (length xs) then Some (xs ! nat i) else None)"

definition randomSnippet :: "random \<Rightarrow> nat \<Rightarrow> string list option \<times> nat" where
  "randomSnippet rnd k = (index snippets \<lfloor>rnd k * real (length snippets)\<rfloor>, k + 1)"

text \<open>\<^verbatim>\<open>this.chunks.forEach(c => c.update(dt))\<close>.\<close>

fun update_chunks :: "random \<Rightarrow> nat \<Rightarrow> real \<Rightarrow> CodeChunk list \<Rightarrow> CodeChunk list \<times> nat" where
  "update_chunks rnd k dt [] = ([], k)"
| "update_chunks rnd k dt (c # cs) =
     (let (c', k') = CodeChunk_update rnd k dt c;
          (cs', k'') = update_chunks rnd k' dt cs
      in (c' # cs', k''))"

text \<open>
  The timer is drawn first, the direction second, the snippet third (an argument of the
  constructor call), and the constructor draws last.
\<close>

definition CodeChunkSystem_spawn ::
  "random \<Rightarrow> nat \<Rightarrow> real \<Rightarrow> real \<Rightarrow> CodeChunkSystem \<Rightarrow> CodeChunkSystem \<times> nat" where
  "CodeChunkSystem_spawn rnd k width height s =
     (let s1 = s\<lparr>timer := 5 + rnd k * 5\<rparr>;
          dir = (if rnd (k + 1) > 0.5 then 1 else - 1);
          (lines, k1) = randomSnippet rnd (k + 2);
          (c, k2) = CodeChunk_new rnd k1 width height lines dir
      in (s1\<lparr>chunks := chunks s1 @ [c]\<rparr>, k2))"

text \<open>
  \<^verbatim>\<open>CodeChunkSystem.update\<close> up to its last statement: the timer, the spawn and the
  \<^verbatim>\<open>forEach\<close>; then the whole method, which ends with the \<^verbatim>\<open>filter\<close>.
\<close>

definition CodeChunkSystem_advance ::
  "random \<Rightarrow> nat \<Rightarrow> real \<Rightarrow> real \<Rightarrow> real \<Rightarrow> CodeChunkSystem \<Rightarrow> CodeChunkSystem \<times> nat" where
  "CodeChunkSystem_advance rnd k dt width height s =
     (let s1 = s\<lparr>timer := timer s - dt\<rparr>;
          (s2, k1) = (if timer s1 \<le> 0 then CodeChunkSystem_spawn rnd k width height s1
                      else (s1, k));
          (cs, k2) = update_chunks rnd k1 dt (chunks s2)
      in (s2\<lparr>chunks := cs\<rparr>, k2))"

definition CodeChunkSystem_update ::
  "random \<Rightarrow> nat \<Rightarrow> real \<Rightarrow> real \<Rightarrow> real \<Rightarrow> CodeChunkSystem \<Rightarrow> CodeChunkSystem \<times> nat" where
  "CodeChunkSystem_update rnd k dt width height s =
     (let (s3, k2) = CodeChunkSystem_advance rnd k dt width height s
      in (s3\<lparr>chunks := filter (\<lambda>c. \<not> isDead width c) (chunks s3)\<rparr>, k2))"

text \<open>A chunk over a sequence of calls of \<^verbatim>\<open>update\<close>, in the same way.\<close>

fun CodeChunk_updates :: "random \<Rightarrow> nat \<Rightarrow> real list \<Rightarrow> CodeChunk \<Rightarrow> CodeChunk \<times> nat" where
  "CodeChunk_updates rnd k [] c = (c, k)"
| "CodeChunk_updates rnd k (dt # dts) c =
     (let (c', k') = CodeChunk_update rnd k dt c
      in CodeChunk_updates rnd k' dts c')"

subsection \<open>Node network\<close>

record Node =
  node_id :: string
  node_x :: real
  node_y :: real
  node_type :: string
  hackedAlpha :: real

definition Node_new :: "string \<Rightarrow> real \<Rightarrow> real \<Rightarrow> string \<Rightarrow> Node" where
  "Node_new ident x y type =
     \<lparr>node_id = ident, node_x = x, node_y = y, node_type = type, hackedAlpha = 0\<rparr>"

definition Node_update :: "real \<Rightarrow> Node \<Rightarrow> Node" where
  "Node_update dt n =
     (if hackedAlpha n > 0
      then (let n1 = n\<lparr>hackedAlpha := hackedAlpha n - dt * 0.2\<rparr>
            in if hackedAlpha n1 < 0 then n1\<lparr>hackedAlpha := 0\<rparr> else n1)
      else n)"

text \<open>
  A reference to a node is its index in the heap of nodes; a \<^verbatim>\<open>Link\<close> holds the two
  values it was constructed with, each a node or \<^verbatim>\<open>undefined\<close> (what \<^verbatim>\<open>find\<close> returns
  when no element matches). Links are never mutated and never compared, so a link is a
  value.
\<close>

type_synonym node_ref = nat

record Link =
  link_from :: "node_ref option"
  link_to :: "node_ref option"

record Packet =
  pkt_link :: Link
  pkt_t :: real
  pkt_speed :: real
  pkt_color :: string

type_synonym packet_ref = nat

definition Packet_new :: "Link \<Rightarrow> string \<Rightarrow> real \<Rightarrow> Packet" where
  "Packet_new link color speed =
     \<lparr>pkt_link = link, pkt_t = 0, pkt_speed = speed, pkt_color = color\<rparr>"

definition Packet_update :: "real \<Rightarrow> Packet \<Rightarrow> Packet" where
  "Packet_update dt p = p\<lparr>pkt_t := pkt_t p + (pkt_speed p * dt) / 1000\<rparr>"

definition Packet_isDone :: "Packet \<Rightarrow> bool" where
  "Packet_isDone p \<longleftrightarrow> pkt_t p \<ge> 1"

record NodeNetworkSystem =
  nodes :: "node_ref list"
  links :: "Link list"
  packets :: "packet_ref list"
  normalTrafficTimer :: real

subsection \<open>Hack events\<close>

text \<open>The state \<^verbatim>\<open>'done'\<close> is \<open>hack_done\<close>.\<close>

datatype hack_state = prepare | launch | inFlight | impact | hack_done

text \<open>
  \<^verbatim>\<open>this.network\<close> of every event and of the hack system is the one
  \<^verbatim>\<open>NodeNetworkSystem\<close> of the program (the global \<^verbatim>\<open>network\<close>, assigned once).
  An event is held by \<^verbatim>\<open>HackSystem.events\<close> only, so it is a value; the nodes and the
  packet it refers to are references.
\<close>

record HackEvent =
  he_state :: hack_state
  he_timer :: real
  he_hacker :: "node_ref option"
  he_targets :: "node_ref list"
  he_target :: "node_ref option"
  he_packet :: "packet_ref option"

record HackSystem =
  events :: "HackEvent list"
  cooldown :: real

subsection \<open>The state of the program\<close>

text \<open>
  The heaps of nodes and packets, the four systems, the canvas size and the number of
  calls of \<^verbatim>\<open>Math.random()\<close> made so far. An object is allocated at the end of its heap
  and never freed.
\<close>

record world =
  node_heap :: "Node list"
  packet_heap :: "Packet list"
  matrix :: MatrixRainSystem
  codeChunks :: CodeChunkSystem
  network :: NodeNetworkSystem
  hacks :: HackSystem
  canvas_width :: real
  canvas_height :: real
  rng :: nat

definition find_node :: "world \<Rightarrow> string \<Rightarrow> node_ref option" where
  "find_node w ident = find (\<lambda>r. node_id (node_heap w ! r) = ident) (nodes (network w))"

definition new_Node :: "string \<Rightarrow> real \<Rightarrow> real \<Rightarrow> string \<Rightarrow> world \<Rightarrow> node_ref \<times> world" where
  "new_Node ident x y type w =
     (length (node_heap w), w\<lparr>node_heap := node_heap w @ [Node_new ident x y type]\<rparr>)"

definition new_Packet :: "Link \<Rightarrow> string \<Rightarrow> real \<Rightarrow> world \<Rightarrow> packet_ref \<times> world" where
  "new_Packet link color speed w =
     (length (packet_heap w), w\<lparr>packet_heap := packet_heap w @ [Packet_new link color speed]\<rparr>)"

definition set_hackedAlpha :: "node_ref \<Rightarrow> real \<Rightarrow> world \<Rightarrow> world" where
  "set_hackedAlpha r v w = w\<lparr>node_heap := (node_heap w)[r := (node_heap w ! r)\<lparr>hackedAlpha := v\<rparr>]\<rparr>"

definition set_network :: "(NodeNetworkSystem \<Rightarrow> NodeNetworkSystem) \<Rightarrow> world \<Rightarrow> world" where
  "set_network f w = w\<lparr>network := f (network w)\<rparr>"

text \<open>
  \<^verbatim>\<open>setupLayout\<close>, in two parts. The first part is the method up to
  \<^verbatim>\<open>this.nodes = nodes\<close>: nine calls of \<^verbatim>\<open>new Node\<close>, the hacker first and the
  others in the order of the array literal. The second part is the rest: the eight links,
  their ends looked up by identifier in the new array.
\<close>

definition setupLayout_nodes :: "real \<Rightarrow> real \<Rightarrow> world \<Rightarrow> world" where
  "setupLayout_nodes width height w =
     (let cx = width * 0.45;
          cy = height * 0.35;
          sx = width * 0.25;
          sy = height * 0.25;
          (hacker, w1) = new_Node ''hacker'' (width * 0.72) (height * 0.65) ''hacker'' w;
          (server, w2) = new_Node ''server'' (cx - sx * 0.4) (cy - sy * 0.4) ''server'' w1;
          (desktop1, w3) = new_Node ''desktop1'' cx (cy - sy * 0.6) ''desktop'' w2;
          (desktop2, w4) = new_Node ''desktop2'' (cx + sx * 0.4) (cy - sy * 0.3) ''desktop'' w3;
          (router, w5) = new_Node ''router'' cx cy ''router'' w4;
          (laptop1, w6) = new_Node ''laptop1'' (cx - sx * 0.5) (cy + sy * 0.2) ''laptop'' w5;
          (phone, w7) = new_Node ''phone'' (cx + sx * 0.3) (cy + sy * 0.3) ''phone'' w6;
          (iot, w8) = new_Node ''iot'' (cx - sx * 0.1) (cy + sy * 0.5) ''iot'' w7;
          (cloud, w9) = new_Node ''cloud'' (cx + sx * 0.5) (cy - sy * 0.7) ''cloud'' w8
      in set_network (\<lambda>n. n\<lparr>nodes :=
           [hacker, server, desktop1, desktop2, router, laptop1, phone, iot, cloud]\<rparr>) w9)"

definition setupLayout :: "real \<Rightarrow> real \<Rightarrow> world \<Rightarrow> world" where
  "setupLayout width height w =
     (let w10 = setupLayout_nodes width height w;
          get = find_node w10
      in set_network (\<lambda>n. n\<lparr>links :=
           [\<lparr>link_from = get ''router'', link_to = get ''server''\<rparr>,
            \<lparr>link_from = get ''router'', link_to = get ''desktop1''\<rparr>,
            \<lparr>link_from = get ''router'', link_to = get ''desktop2''\<rparr>,
            \<lparr>link_from = get ''router'', link_to = get ''laptop1''\<rparr>,
            \<lparr>link_from = get ''router'', link_to = get ''phone''\<rparr>,
            \<lparr>link_from = get ''router'', link_to = get ''iot''\<rparr>,
            \<lparr>link_from = get ''router'', link_to = get ''cloud''\<rparr>,
            \<lparr>link_from = get ''hacker'', link_to = get ''router''\<rparr>]\<rparr>) w10)"

text \<open>
  \<^verbatim>\<open>sendPacket\<close>: a node is an object, hence truthy, so \<^verbatim>\<open>!from || !to\<close> holds exactly
  when one of the two lookups found nothing.
\<close>

definition sendPacket :: "string \<Rightarrow> string \<Rightarrow> string \<Rightarrow> real \<Rightarrow> world \<Rightarrow> world" where
  "sendPacket fromId toId color speed w =
     (let from = find_node w fromId;
          to = find_node w toId
      in if from = None \<or> to = None then w
         else (let link = \<lparr>link_from = from, link_to = to\<rparr>;
                   (p, w1) = new_Packet link color speed w
               in set_network (\<lambda>n. n\<lparr>packets := packets n @ [p]\<rparr>) w1))"

text \<open>\<^verbatim>\<open>this.nodes.forEach(n => n.update(dt))\<close> and \<^verbatim>\<open>this.packets.forEach(p => p.update(dt))\<close>.\<close>

definition update_nodes :: "real \<Rightarrow> node_ref list \<Rightarrow> Node list \<Rightarrow> Node list" where
  "update_nodes dt rs h = fold (\<lambda>r h. h[r := Node_update dt (h ! r)]) rs h"

definition update_packets :: "real \<Rightarrow> packet_ref list \<Rightarrow> Packet list \<Rightarrow> Packet list" where
  "update_packets dt rs h = fold (\<lambda>r h. h[r := Packet_update dt (h ! r)]) rs h"

text \<open>
  The background traffic of \<^verbatim>\<open>NodeNetworkSystem.update\<close>. \<^verbatim>\<open>target.id\<close> raises a
  TypeError when \<^verbatim>\<open>others[...]\<close> is \<^verbatim>\<open>undefined\<close>. The speed of each packet is an
  argument of its call of \<^verbatim>\<open>sendPacket\<close>, drawn before the call.
\<close>

definition normalTraffic :: "random \<Rightarrow> world \<Rightarrow> error + world" where
  "normalTraffic rnd w =
     (let k = rng w;
          w1 = set_network (\<lambda>n. n\<lparr>normalTrafficTimer := 0.3 + rnd k * 0.7\<rparr>) (w\<lparr>rng := k + 1\<rparr>);
          router = find_node w1 ''router'';
          others = filter (\<lambda>r. node_id (node_heap w1 ! r) \<noteq> ''router''
                              \<and> node_id (node_heap w1 ! r) \<noteq> ''hacker'') (nodes (network w1))
      in case router of
           None \<Rightarrow> Inr w1
         | Some rt \<Rightarrow>
             if others = [] then Inr w1
             else (case index others \<lfloor>rnd (k + 1) * real (length others)\<rfloor> of
                     None \<Rightarrow> Inl TypeError
                   | Some target \<Rightarrow>
                       (let routerId = node_id (node_heap w1 ! rt);
                            targetId = node_id (node_heap w1 ! target);
                            w2 = sendPacket routerId targetId ''#00ff88'' (120 + rnd (k + 2) * 120)
                                   (w1\<lparr>rng := k + 3\<rparr>);
                            w3 = sendPacket targetId routerId ''#00ff88'' (120 + rnd (k + 3) * 120)
                                   (w2\<lparr>rng := k + 4\<rparr>)
                        in Inr w3)))"

definition NodeNetworkSystem_update :: "random \<Rightarrow> real \<Rightarrow> world \<Rightarrow> error + world" where
  "NodeNetworkSystem_update rnd dt w =
     (let w1 = w\<lparr>node_heap := update_nodes dt (nodes (network w)) (node_heap w)\<rparr>;
          w2 = set_network (\<lambda>n. n\<lparr>normalTrafficTimer := normalTrafficTimer n - dt\<rparr>) w1
      in case (if normalTrafficTimer (network w2) \<le> 0 then normalTraffic rnd w2 else Inr w2) of
           Inl e \<Rightarrow> Inl e
         | Inr w3 \<Rightarrow>
             (let w4 = w3\<lparr>packet_heap := update_packets dt (packets (network w3)) (packet_heap w3)\<rparr>
              in Inr (set_network (\<lambda>n. n\<lparr>packets :=
                        filter (\<lambda>p. \<not> Packet_isDone (packet_heap w4 ! p)) (packets n)\<rparr>) w4)))"

definition NodeNetworkSystem_new :: "real \<Rightarrow> real \<Rightarrow> world \<Rightarrow> world" where
  "NodeNetworkSystem_new width height w =
     setupLayout width height
       (w\<lparr>network := \<lparr>nodes = [], links = [], packets = [], normalTrafficTimer = 0\<rparr>\<rparr>)"

text \<open>The constructor of \<^verbatim>\<open>HackEvent\<close>: one call of \<^verbatim>\<open>Math.random()\<close>, for the target.\<close>

definition HackEvent_new :: "random \<Rightarrow> world \<Rightarrow> HackEvent \<times> world" where
  "HackEvent_new rnd w =
     (let targets = filter (\<lambda>r. node_id (node_heap w ! r) \<noteq> ''hacker''
                               \<and> node_id (node_heap w ! r) \<noteq> ''router'') (nodes (network w))
      in (\<lparr>he_state = prepare,
           he_timer = 0,
           he_hacker = find_node w ''hacker'',
           he_targets = targets,
           he_target = index targets \<lfloor>rnd (rng w) * real (length targets)\<rfloor>,
           he_packet = None\<rparr>,
          w\<lparr>rng := rng w + 1\<rparr>))"

text \<open>
  \<^verbatim>\<open>HackEvent.update\<close>. In \<^verbatim>\<open>inFlight\<close> the assignment \<^verbatim>\<open>this.target.hackedAlpha = 1.0\<close>
  raises a TypeError when \<^verbatim>\<open>this.target\<close> is \<^verbatim>\<open>undefined\<close>.
\<close>

definition HackEvent_update :: "real \<Rightarrow> HackEvent \<Rightarrow> world \<Rightarrow> error + HackEvent \<times> world" where
  "HackEvent_update dt e w =
     (let e1 = e\<lparr>he_timer := he_timer e + dt\<rparr>
      in case he_state e1 of
           prepare \<Rightarrow>
             (let w1 = (case he_hacker e1 of None \<Rightarrow> w | Some h \<Rightarrow> set_hackedAlpha h 1.0 w)
              in if he_timer e1 > 0.5
                 then Inr (e1\<lparr>he_state := launch, he_timer := 0\<rparr>, w1)
                 else Inr (e1, w1))
         | launch \<Rightarrow>
             (let (p, w1) = new_Packet \<lparr>link_from = he_hacker e1, link_to = he_target e1\<rparr>
                              ''#ff0066'' 260 w;
                  w2 = set_network (\<lambda>n. n\<lparr>packets := packets n @ [p]\<rparr>) w1
              in Inr (e1\<lparr>he_packet := Some p, he_state := inFlight\<rparr>, w2))
         | inFlight \<Rightarrow>
             (case he_packet e1 of
                None \<Rightarrow> Inr (e1, w)
              | Some p \<Rightarrow>
                  if Packet_isDone (packet_heap w ! p)
                  then (case he_target e1 of
                          None \<Rightarrow> Inl TypeError
                        | Some t \<Rightarrow>
                            Inr (e1\<lparr>he_state := impact, he_timer := 0\<rparr>, set_hackedAlpha t 1.0 w))
                  else Inr (e1, w))
         | impact \<Rightarrow>
             (if he_timer e1 > 1.5 then Inr (e1\<lparr>he_state := hack_done\<rparr>, w) else Inr (e1, w))
         | hack_done \<Rightarrow> Inr (e1, w))"

definition HackEvent_isDone :: "HackEvent \<Rightarrow> bool" where
  "HackEvent_isDone e \<longleftrightarrow> he_state e = hack_done"

text \<open>
  \<^verbatim>\<open>this.events.forEach(e => e.update(dt))\<close>: the events are updated in order, each on
  the state the one before left; an exception ends the loop.
\<close>

fun update_events :: "real \<Rightarrow> HackEvent list \<Rightarrow> world \<Rightarrow> error + HackEvent list \<times> world" where
  "update_events dt [] w = Inr ([], w)"
| "update_events dt (e # es) w =
     (case HackEvent_update dt e w of
        Inl err \<Rightarrow> Inl err
      | Inr (e', w1) \<Rightarrow>
          (case update_events dt es w1 of
             Inl err \<Rightarrow> Inl err
           | Inr (es', w2) \<Rightarrow> Inr (e' # es', w2)))"

definition set_hacks :: "(HackSystem \<Rightarrow> HackSystem) \<Rightarrow> world \<Rightarrow> world" where
  "set_hacks f w = w\<lparr>hacks := f (hacks w)\<rparr>"

definition HackSystem_new :: HackSystem where
  "HackSystem_new = \<lparr>events = [], cooldown = 0\<rparr>"

definition HackSystem_spawn :: "random \<Rightarrow> world \<Rightarrow> world" where
  "HackSystem_spawn rnd w =
     (let w1 = set_hacks (\<lambda>s. s\<lparr>cooldown := 5 + rnd (rng w) * 10\<rparr>) (w\<lparr>rng := rng w + 1\<rparr>);
          (e, w2) = HackEvent_new rnd w1
      in set_hacks (\<lambda>s. s\<lparr>events := events s @ [e]\<rparr>) w2)"

definition HackSystem_update :: "random \<Rightarrow> real \<Rightarrow> world \<Rightarrow> error + world" where
  "HackSystem_update rnd dt w =
     (let w1 = set_hacks (\<lambda>s. s\<lparr>cooldown := cooldown s - dt\<rparr>) w;
          w2 = (if cooldown (hacks w1) \<le> 0 then HackSystem_spawn rnd w1 else w1)
      in case update_events dt (events (hacks w2)) w2 of
           Inl err \<Rightarrow> Inl err
         | Inr (es, w3) \<Rightarrow>
             Inr (set_hacks (\<lambda>s. s\<lparr>events := filter (\<lambda>e. \<not> HackEvent_isDone e) es\<rparr>) w3))"

subsection \<open>The main loop\<close>

text \<open>
  The top level of the script: \<^verbatim>\<open>resize()\<close> reads the size of the window, then the four
  systems are constructed. \<^verbatim>\<open>update(dt)\<close> calls the four systems in order. Of \<^verbatim>\<open>draw()\<close>
  the model keeps the one effect it has on the state, the calls of \<^verbatim>\<open>Math.random()\<close> of
  the rain; what it paints is not modelled. A resize event runs the three listeners in
  the order of their registration.
\<close>

definition start :: "random \<Rightarrow> real \<Rightarrow> real \<Rightarrow> world" where
  "start rnd width height =
     (let (m, k) = MatrixRainSystem_new rnd 0 width height
      in NodeNetworkSystem_new width height
           \<lparr>node_heap = [], packet_heap = [], matrix = m, codeChunks = CodeChunkSystem_new,
            network = \<lparr>nodes = [], links = [], packets = [], normalTrafficTimer = 0\<rparr>,
            hacks = HackSystem_new, canvas_width = width, canvas_height = height, rng = k\<rparr>)"

definition update :: "random \<Rightarrow> real \<Rightarrow> world \<Rightarrow> error + world" where
  "update rnd dt w =
     (let (m, k1) = MatrixRainSystem_update rnd (rng w) dt (canvas_width w) (canvas_height w)
                      (matrix w);
          (c, k2) = CodeChunkSystem_update rnd k1 dt (canvas_width w) (canvas_height w)
                      (codeChunks w);
          w1 = w\<lparr>matrix := m, codeChunks := c, rng := k2\<rparr>
      in case NodeNetworkSystem_update rnd dt w1 of
           Inl e \<Rightarrow> Inl e
         | Inr w2 \<Rightarrow> HackSystem_update rnd dt w2)"

definition draw :: "world \<Rightarrow> world" where
  "draw w = w\<lparr>rng := MatrixRainSystem_draw (rng w) (canvas_height w) (matrix w)\<rparr>"

definition on_resize :: "random \<Rightarrow> real \<Rightarrow> real \<Rightarrow> world \<Rightarrow> world" where
  "on_resize rnd width height w =
     (let w1 = w\<lparr>canvas_width := width, canvas_height := height\<rparr>;
          (m, k) = MatrixRainSystem_reset rnd (rng w1) (canvas_width w1) (canvas_height w1)
                     (matrix w1);
          w2 = w1\<lparr>matrix := m, rng := k\<rparr>
      in setupLayout (canvas_width w2) (canvas_height w2) w2)"

text \<open>
  The states the program reaches: after the start, after a frame (\<^verbatim>\<open>update\<close> then
  \<^verbatim>\<open>draw\<close>) that raised nothing, with the elapsed time \<open>dt\<close> of the frame not negative,
  and after a resize event.
\<close>

inductive reachable :: "random \<Rightarrow> world \<Rightarrow> bool" for rnd :: random where
  start: "reachable rnd (start rnd width height)"
| frame: "reachable rnd w \<Longrightarrow> 0 \<le> dt \<Longrightarrow> update rnd dt w = Inr w' \<Longrightarrow> reachable rnd (draw w')"
| resize: "reachable rnd w \<Longrightarrow> reachable rnd (on_resize rnd width height w)"

subsection \<open>What is drawn of a packet\<close>

text \<open>
  \<^verbatim>\<open>Packet.draw\<close> paints a disc at the point it computes from the two ends of the link
  and \<open>t\<close>; reading \<^verbatim>\<open>this.link.from.x\<close> raises a TypeError when an end is
  \<^verbatim>\<open>undefined\<close>.
\<close>

definition Packet_position :: "world \<Rightarrow> Packet \<Rightarrow> error + real \<times> real" where
  "Packet_position w p =
     (case link_from (pkt_link p) of
        None \<Rightarrow> Inl TypeError
      | Some a \<Rightarrow>
          (case link_to (pkt_link p) of
             None \<Rightarrow> Inl TypeError
           | Some b \<Rightarrow>
               Inr (lerp (node_x (node_heap w ! a)) (node_x (node_heap w ! b)) (pkt_t p),
                    lerp (node_y (node_heap w ! a)) (node_y (node_heap w ! b)) (pkt_t p))))"

subsection \<open>Invariants of the reachable states\<close>

text \<open>The nine nodes that \<^verbatim>\<open>setupLayout\<close> constructs, in the order of their construction.\<close>

definition layout_nodes :: "real \<Rightarrow> real \<Rightarrow> Node list" where
  "layout_nodes width height =
     (let cx = width * 0.45;
          cy = height * 0.35;
          sx = width * 0.25;
          sy = height * 0.25
      in [Node_new ''hacker'' (width * 0.72) (height * 0.65) ''hacker'',
          Node_new ''server'' (cx - sx * 0.4) (cy - sy * 0.4) ''server'',
          Node_new ''desktop1'' cx (cy - sy * 0.6) ''desktop'',
          Node_new ''desktop2'' (cx + sx * 0.4) (cy - sy * 0.3) ''desktop'',
          Node_new ''router'' cx cy ''router'',
          Node_new ''laptop1'' (cx - sx * 0.5) (cy + sy * 0.2) ''laptop'',
          Node_new ''phone'' (cx + sx * 0.3) (cy + sy * 0.3) ''phone'',
          Node_new ''iot'' (cx - sx * 0.1) (cy + sy * 0.5) ''iot'',
          Node_new ''cloud'' (cx + sx * 0.5) (cy - sy * 0.7) ''cloud''])"

text \<open>The eight links of the layout, when the nine nodes are at \<open>n\<close>, \<dots>, \<open>n + 8\<close> of the heap.\<close>

definition layout_links :: "nat \<Rightarrow> Link list" where
  "layout_links n =
     [\<lparr>link_from = Some (n + 4), link_to = Some (n + 1)\<rparr>,
      \<lparr>link_from = Some (n + 4), link_to = Some (n + 2)\<rparr>,
      \<lparr>link_from = Some (n + 4), link_to = Some (n + 3)\<rparr>,
      \<lparr>link_from = Some (n + 4), link_to = Some (n + 5)\<rparr>,
      \<lparr>link_from = Some (n + 4), link_to = Some (n + 6)\<rparr>,
      \<lparr>link_from = Some (n + 4), link_to = Some (n + 7)\<rparr>,
      \<lparr>link_from = Some (n + 4), link_to = Some (n + 8)\<rparr>,
      \<lparr>link_from = Some n, link_to = Some (n + 4)\<rparr>]"

definition layout_ids :: "string list" where
  "layout_ids = [''hacker'', ''server'', ''desktop1'', ''desktop2'', ''router'', ''laptop1'',
     ''phone'', ''iot'', ''cloud'']"

text \<open>The array \<^verbatim>\<open>network.nodes\<close> holds nine live nodes with the identifiers of the layout.\<close>

definition layout_ok :: "world \<Rightarrow> bool" where
  "layout_ok w \<longleftrightarrow>
     map (\<lambda>r. node_id (node_heap w ! r)) (nodes (network w)) = layout_ids
     \<and> (\<forall>r \<in> set (nodes (network w)). r < length (node_heap w))"

definition nodes_ok :: "Node list \<Rightarrow> bool" where
  "nodes_ok h \<longleftrightarrow> (\<forall>n \<in> set h. 0 \<le> hackedAlpha n \<and> hackedAlpha n \<le> 1)"

definition packets_ok :: "Packet list \<Rightarrow> bool" where
  "packets_ok h \<longleftrightarrow> (\<forall>p \<in> set h. 0 \<le> pkt_t p \<and> 120 \<le> pkt_speed p)"

text \<open>Every packet of the active collection is live and not done.\<close>

definition active_ok :: "world \<Rightarrow> bool" where
  "active_ok w \<longleftrightarrow>
     (\<forall>r \<in> set (packets (network w)).
        r < length (packet_heap w) \<and> \<not> Packet_isDone (packet_heap w ! r))"

text \<open>
  An event has its hacker and its target, both live nodes, and its packet, once launched,
  is a live packet.
\<close>

definition event_ok :: "world \<Rightarrow> HackEvent \<Rightarrow> bool" where
  "event_ok w e \<longleftrightarrow>
     (case he_hacker e of None \<Rightarrow> False | Some h \<Rightarrow> h < length (node_heap w))
     \<and> (case he_target e of None \<Rightarrow> False | Some t \<Rightarrow> t < length (node_heap w))
     \<and> (case he_packet e of
          None \<Rightarrow> he_state e = prepare \<or> he_state e = launch
        | Some p \<Rightarrow> p < length (packet_heap w) \<and> he_state e \<noteq> prepare \<and> he_state e \<noteq> launch)"

definition world_inv :: "world \<Rightarrow> bool" where
  "world_inv w \<longleftrightarrow>
     layout_ok w \<and> nodes_ok (node_heap w) \<and> packets_ok (packet_heap w) \<and> active_ok w
     \<and> (\<forall>e \<in> set (events (hacks w)). event_ok w e)"

definition core_inv :: "world \<Rightarrow> bool" where
  "core_inv w \<longleftrightarrow>
     layout_ok w \<and> nodes_ok (node_heap w) \<and> packets_ok (packet_heap w) \<and> active_ok w"

text \<open>
  How the heaps change from a state to a later one: no object is freed; a node keeps its
  identifier, position and type; a packet keeps its link, speed and color and its \<open>t\<close>
  does not decrease.
\<close>

definition node_kept :: "Node \<Rightarrow> Node \<Rightarrow> bool" where
  "node_kept n n' \<longleftrightarrow>
     node_id n' = node_id n \<and> node_x n' = node_x n \<and> node_y n' = node_y n
     \<and> node_type n' = node_type n"

definition packet_advanced :: "Packet \<Rightarrow> Packet \<Rightarrow> bool" where
  "packet_advanced p p' \<longleftrightarrow>
     pkt_link p' = pkt_link p \<and> pkt_speed p' = pkt_speed p \<and> pkt_color p' = pkt_color p
     \<and> pkt_t p \<le> pkt_t p'"

definition evolves :: "world \<Rightarrow> world \<Rightarrow> bool" where
  "evolves w w' \<longleftrightarrow>
     length (node_heap w) \<le> length (node_heap w')
     \<and> (\<forall>r < length (node_heap w). node_kept (node_heap w ! r) (node_heap w' ! r))
     \<and> length (packet_heap w) \<le> length (packet_heap w')
     \<and> (\<forall>r < length (packet_heap w). packet_advanced (packet_heap w ! r) (packet_heap w' ! r))"

subsection \<open>Concrete states\<close>

text \<open>A chunk that has faded out and has left a surface 1024 wide by more than the margin.\<close>

definition chunk_gone :: CodeChunk where
  "chunk_gone = \<lparr>direction = 1, chunk_speed = 20, alpha = 0.1, state = fadeOut, chunk_y = 50,
     chunk_x = 1500, textLines = None, holdTime = Some 0\<rparr>"

text \<open>A hack event as its constructor leaves it on the nine nodes of a new layout.\<close>

definition event0 :: HackEvent where
  "event0 = \<lparr>he_state = prepare, he_timer = 0, he_hacker = Some 0,
     he_targets = [1, 2, 3, 5, 6, 7, 8], he_target = Some 2, he_packet = None\<rparr>"

text \<open>
  The state after the first frame, of one second, on a canvas of 32 by 32 when every
  call of \<^verbatim>\<open>Math.random()\<close> returns 0.5, before the frame is drawn.
\<close>

definition world1 :: world where
  \<open>world1 =
     \<lparr>node_heap =
        [\<lparr>node_id = ''hacker'', node_x = 576 / 25, node_y = 104 / 5, node_type = ''hacker'',
           hackedAlpha = 1\<rparr>,
         \<lparr>node_id = ''server'', node_x = 56 / 5, node_y = 8, node_type = ''server'',
           hackedAlpha = 0\<rparr>,
         \<lparr>node_id = ''desktop1'', node_x = 72 / 5, node_y = 32 / 5, node_type = ''desktop'',
           hackedAlpha = 0\<rparr>,
         \<lparr>node_id = ''desktop2'', node_x = 88 / 5, node_y = 44 / 5, node_type = ''desktop'',
           hackedAlpha = 0\<rparr>,
         \<lparr>node_id = ''router'', node_x = 72 / 5, node_y = 56 / 5, node_type = ''router'',
           hackedAlpha = 0\<rparr>,
         \<lparr>node_id = ''laptop1'', node_x = 52 / 5, node_y = 64 / 5, node_type = ''laptop'',
           hackedAlpha = 0\<rparr>,
         \<lparr>node_id = ''phone'', node_x = 84 / 5, node_y = 68 / 5, node_type = ''phone'',
           hackedAlpha = 0\<rparr>,
         \<lparr>node_id = ''iot'', node_x = 68 / 5, node_y = 76 / 5, node_type = ''iot'',
           hackedAlpha = 0\<rparr>,
         \<lparr>node_id = ''cloud'', node_x = 92 / 5, node_y = 28 / 5, node_type = ''cloud'',
           hackedAlpha = 0\<rparr>],
      packet_heap =
        [\<lparr>pkt_link = \<lparr>link_from = Some 4, link_to = Some 5\<rparr>, pkt_t = 9 / 50,
           pkt_speed = 180, pkt_color = ''#00ff88''\<rparr>,
         \<lparr>pkt_link = \<lparr>link_from = Some 5, link_to = Some 4\<rparr>, pkt_t = 9 / 50,
           pkt_speed = 180, pkt_color = ''#00ff88''\<rparr>],
      matrix =
        \<lparr>columns =
           [\<lparr>col_x = 0, col_y = 109, col_speed = 125\<rparr>,
            \<lparr>col_x = 16, col_y = 109, col_speed = 125\<rparr>]\<rparr>,
      codeChunks =
        \<lparr>chunks =
           [\<lparr>direction = - 1, chunk_speed = 40, alpha = 1 / 2, state = fadeIn, chunk_y = 16,
              chunk_x = 292,
              textLines = Some [''<div class="node hacked">'',
                ''  <span>&#9760; root access</span>'', ''</div>''],
              holdTime = None\<rparr>],
         timer = 15 / 2\<rparr>,
      network =
        \<lparr>nodes = [0, 1, 2, 3, 4, 5, 6, 7, 8], links = layout_links 0, packets = [0, 1],
         normalTrafficTimer = 13 / 20\<rparr>,
      hacks =
        \<lparr>events =
           [\<lparr>he_state = launch, he_timer = 0, he_hacker = Some 0,
              he_targets = [1, 2, 3, 5, 6, 7, 8], he_target = Some 5, he_packet = None\<rparr>],
         cooldown = 10\<rparr>,
      canvas_width = 32, canvas_height = 32, rng = 15\<rparr>\<close>

text \<open>The state after that frame is drawn and a second frame, of five seconds.\<close>

definition world2 :: world where
  \<open>world2 =
     \<lparr>node_heap =
        [\<lparr>node_id = ''hacker'', node_x = 576 / 25, node_y = 104 / 5, node_type = ''hacker'',
           hackedAlpha = 0\<rparr>,
         \<lparr>node_id = ''server'', node_x = 56 / 5, node_y = 8, node_type = ''server'',
           hackedAlpha = 0\<rparr>,
         \<lparr>node_id = ''desktop1'', node_x = 72 / 5, node_y = 32 / 5, node_type = ''desktop'',
           hackedAlpha = 0\<rparr>,
         \<lparr>node_id = ''desktop2'', node_x = 88 / 5, node_y = 44 / 5, node_type = ''desktop'',
           hackedAlpha = 0\<rparr>,
         \<lparr>node_id = ''router'', node_x = 72 / 5, node_y = 56 / 5, node_type = ''router'',
           hackedAlpha = 0\<rparr>,
         \<lparr>node_id = ''laptop1'', node_x = 52 / 5, node_y = 64 / 5, node_type = ''laptop'',
           hackedAlpha = 0\<rparr>,
         \<lparr>node_id = ''phone'', node_x = 84 / 5, node_y = 68 / 5, node_type = ''phone'',
           hackedAlpha = 0\<rparr>,
         \<lparr>node_id = ''iot'', node_x = 68 / 5, node_y = 76 / 5, node_type = ''iot'',
           hackedAlpha = 0\<rparr>,
         \<lparr>node_id = ''cloud'', node_x = 92 / 5, node_y = 28 / 5, node_type = ''cloud'',
           hackedAlpha = 0\<rparr>],
      packet_heap =
        [\<lparr>pkt_link = \<lparr>link_from = Some 4, link_to = Some 5\<rparr>, pkt_t = 27 / 25,
           pkt_speed = 180, pkt_color = ''#00ff88''\<rparr>,
         \<lparr>pkt_link = \<lparr>link_from = Some 5, link_to = Some 4\<rparr>, pkt_t = 27 / 25,
           pkt_speed = 180, pkt_color = ''#00ff88''\<rparr>,
         \<lparr>pkt_link = \<lparr>link_from = Some 4, link_to = Some 5\<rparr>, pkt_t = 9 / 10,
           pkt_speed = 180, pkt_color = ''#00ff88''\<rparr>,
         \<lparr>pkt_link = \<lparr>link_from = Some 5, link_to = Some 4\<rparr>, pkt_t = 9 / 10,
           pkt_speed = 180, pkt_color = ''#00ff88''\<rparr>,
         \<lparr>pkt_link = \<lparr>link_from = Some 0, link_to = Some 5\<rparr>, pkt_t = 0,
           pkt_speed = 260, pkt_color = ''#ff0066''\<rparr>],
      matrix =
        \<lparr>columns =
           [\<lparr>col_x = 0, col_y = - 16, col_speed = 125\<rparr>,
            \<lparr>col_x = 16, col_y = - 16, col_speed = 125\<rparr>]\<rparr>,
      codeChunks =
        \<lparr>chunks =
           [\<lparr>direction = - 1, chunk_speed = 40, alpha = 4 / 5, state = hold, chunk_y = 16,
              chunk_x = 92,
              textLines = Some [''<div class="node hacked">'',
                ''  <span>&#9760; root access</span>'', ''</div>''],
              holdTime = Some (7 / 2)\<rparr>],
         timer = 5 / 2\<rparr>,
      network =
        \<lparr>nodes = [0, 1, 2, 3, 4, 5, 6, 7, 8], links = layout_links 0, packets = [2, 3, 4],
         normalTrafficTimer = 13 / 20\<rparr>,
      hacks =
        \<lparr>events =
           [\<lparr>he_state = inFlight, he_timer = 5, he_hacker = Some 0,
              he_targets = [1, 2, 3, 5, 6, 7, 8], he_target = Some 5, he_packet = Some 4\<rparr>],
         cooldown = 5\<rparr>,
      canvas_width = 32, canvas_height = 32, rng = 36\<rparr>\<close>

text \<open>The state after the second frame is drawn and a third frame, of four seconds.\<close>

definition world3 :: world where
  \<open>world3 =
     \<lparr>node_heap =
        [\<lparr>node_id = ''hacker'', node_x = 576 / 25, node_y = 104 / 5, node_type = ''hacker'',
           hackedAlpha = 0\<rparr>,
         \<lparr>node_id = ''server'', node_x = 56 / 5, node_y = 8, node_type = ''server'',
           hackedAlpha = 0\<rparr>,
         \<lparr>node_id = ''desktop1'', node_x = 72 / 5, node_y = 32 / 5, node_type = ''desktop'',
           hackedAlpha = 0\<rparr>,
         \<lparr>node_id = ''desktop2'', node_x = 88 / 5, node_y = 44 / 5, node_type = ''desktop'',
           hackedAlpha = 0\<rparr>,
         \<lparr>node_id = ''router'', node_x = 72 / 5, node_y = 56 / 5, node_type = ''router'',
           hackedAlpha = 0\<rparr>,
         \<lparr>node_id = ''laptop1'', node_x = 52 / 5, node_y = 64 / 5, node_type = ''laptop'',
           hackedAlpha = 1\<rparr>,
         \<lparr>node_id = ''phone'', node_x = 84 / 5, node_y = 68 / 5, node_type = ''phone'',
           hackedAlpha = 0\<rparr>,
         \<lparr>node_id = ''iot'', node_x = 68 / 5, node_y = 76 / 5, node_type = ''iot'',
           hackedAlpha = 0\<rparr>,
         \<lparr>node_id = ''cloud'', node_x = 92 / 5, node_y = 28 / 5, node_type = ''cloud'',
           hackedAlpha = 0\<rparr>],
      packet_heap =
        [\<lparr>pkt_link = \<lparr>link_from = Some 4, link_to = Some 5\<rparr>, pkt_t = 27 / 25,
           pkt_speed = 180, pkt_color = ''#00ff88''\<rparr>,
         \<lparr>pkt_link = \<lparr>link_from = Some 5, link_to = Some 4\<rparr>, pkt_t = 27 / 25,
           pkt_speed = 180, pkt_color = ''#00ff88''\<rparr>,
         \<lparr>pkt_link = \<lparr>link_from = Some 4, link_to = Some 5\<rparr>, pkt_t = 81 / 50,
           pkt_speed = 180, pkt_color = ''#00ff88''\<rparr>,
         \<lparr>pkt_link = \<lparr>link_from = Some 5, link_to = Some 4\<rparr>, pkt_t = 81 / 50,
           pkt_speed = 180, pkt_color = ''#00ff88''\<rparr>,
         \<lparr>pkt_link = \<lparr>link_from = Some 0, link_to = Some 5\<rparr>, pkt_t = 26 / 25,
           pkt_speed = 260, pkt_color = ''#ff0066''\<rparr>,
         \<lparr>pkt_link = \<lparr>link_from = Some 4, link_to = Some 5\<rparr>, pkt_t = 18 / 25,
           pkt_speed = 180, pkt_color = ''#00ff88''\<rparr>,
         \<lparr>pkt_link = \<lparr>link_from = Some 5, link_to = Some 4\<rparr>, pkt_t = 18 / 25,
           pkt_speed = 180, pkt_color = ''#00ff88''\<rparr>],
      matrix =
        \<lparr>columns =
           [\<lparr>col_x = 0, col_y = - 16, col_speed = 125\<rparr>,
            \<lparr>col_x = 16, col_y = - 16, col_speed = 125\<rparr>]\<rparr>,
      codeChunks =
        \<lparr>chunks =
           [\<lparr>direction = - 1, chunk_speed = 40, alpha = 4 / 5, state = fadeOut, chunk_y = 16,
              chunk_x = - 68,
              textLines = Some [''<div class="node hacked">'',
                ''  <span>&#9760; root access</span>'', ''</div>''],
              holdTime = Some (- (1 / 2))\<rparr>,
            \<lparr>direction = - 1, chunk_speed = 40, alpha = 4 / 5, state = hold, chunk_y = 16,
              chunk_x = 172,
              textLines = Some [''<div class="node hacked">'',
                ''  <span>&#9760; root access</span>'', ''</div>''],
              holdTime = Some (7 / 2)\<rparr>],
         timer = 15 / 2\<rparr>,
      network =
        \<lparr>nodes = [0, 1, 2, 3, 4, 5, 6, 7, 8], links = layout_links 0, packets = [5, 6],
         normalTrafficTimer = 13 / 20\<rparr>,
      hacks =
        \<lparr>events =
           [\<lparr>he_state = impact, he_timer = 0, he_hacker = Some 0,
              he_targets = [1, 2, 3, 5, 6, 7, 8], he_target = Some 5, he_packet = Some 4\<rparr>],
         cooldown = 1\<rparr>,
      canvas_width = 32, canvas_height = 32, rng = 62\<rparr>\<close>

section \<open>Lemmas about the model\<close>

lemmas unfolds = Let_def case_prod_unfold

subsection \<open>Matrix rain: the number of columns\<close>

lemma length_reset_loop:
  "length (fst (reset_loop rnd k x width height cols)) = length cols + nat \<lceil>(width - x) / 16\<rceil>"
proof (induction rnd k x width height cols rule: reset_loop.induct)
  case (1 rnd k x width height cols)
  show ?case
  proof (cases "x < width")
    case True
    have "(width - (x + spacing)) / 16 = (width - x) / 16 - 1"
      by (simp add: field_simps spacing_def)
    then have step: "\<lceil>(width - (x + spacing)) / 16\<rceil> = \<lceil>(width - x) / 16\<rceil> - 1"
      by (simp only: ceiling_diff_one)
    have pos: "0 < \<lceil>(width - x) / 16\<rceil>"
      using True by simp
    show ?thesis
      using True "1.IH" [OF True] step pos
      by (subst reset_loop.simps) (simp add: nat_diff_distrib)
  next
    case False
    then have "\<lceil>(width - x) / 16\<rceil> \<le> 0"
      by (simp add: ceiling_le_zero)
    with False show ?thesis
      by (subst reset_loop.simps) simp
  qed
qed

lemma length_update_columns:
  "length (fst (update_columns rnd k dt height cs)) = length cs"
  by (induction cs arbitrary: k) (simp_all add: unfolds)

lemma length_MatrixRainSystem_update:
  "length (columns (fst (MatrixRainSystem_update rnd k dt width height m))) = length (columns m)"
  by (simp add: MatrixRainSystem_update_def unfolds length_update_columns)

lemma length_MatrixRainSystem_updates:
  "length (columns (fst (MatrixRainSystem_updates rnd k calls m))) = length (columns m)"
proof (induction calls arbitrary: k m)
  case Nil
  show ?case by simp
next
  case (Cons call calls)
  obtain dt width height where call: "call = (dt, width, height)"
    by (cases call) auto
  obtain m' k' where up: "MatrixRainSystem_update rnd k dt width height m = (m', k')"
    by (cases "MatrixRainSystem_update rnd k dt width height m") auto
  have "length (columns m') = length (columns m)"
    using length_MatrixRainSystem_update [of rnd k dt width height m] up by simp
  with Cons.IH [of k' m'] call up show ?case by simp
qed

subsection \<open>Code chunks: removal\<close>

lemma isDead_iff:
  "isDead width c \<longleftrightarrow> alpha c \<le> 0 \<and> (chunk_x c < - 400 \<or> chunk_x c > width + 400)"
  by (simp add: isDead_def)

lemma chunks_CodeChunkSystem_update:
  "chunks (fst (CodeChunkSystem_update rnd k dt width height s))
   = filter (\<lambda>c. \<not> isDead width c) (chunks (fst (CodeChunkSystem_advance rnd k dt width height s)))"
  by (simp add: CodeChunkSystem_update_def unfolds)

subsection \<open>The layout\<close>

lemma setupLayout_nodes_eq:
  "setupLayout_nodes width height w
   = w\<lparr>node_heap := node_heap w @ layout_nodes width height,
       network := (network w)
         \<lparr>nodes := map (\<lambda>i. length (node_heap w) + i) [0, 1, 2, 3, 4, 5, 6, 7, 8]\<rparr>\<rparr>"
  by (simp add: setupLayout_nodes_def new_Node_def set_network_def layout_nodes_def unfolds)

lemma find_node_setupLayout_nodes:
  "find_node (setupLayout_nodes width height w) ''hacker'' = Some (length (node_heap w))"
  "find_node (setupLayout_nodes width height w) ''server'' = Some (length (node_heap w) + 1)"
  "find_node (setupLayout_nodes width height w) ''desktop1'' = Some (length (node_heap w) + 2)"
  "find_node (setupLayout_nodes width height w) ''desktop2'' = Some (length (node_heap w) + 3)"
  "find_node (setupLayout_nodes width height w) ''router'' = Some (length (node_heap w) + 4)"
  "find_node (setupLayout_nodes width height w) ''laptop1'' = Some (length (node_heap w) + 5)"
  "find_node (setupLayout_nodes width height w) ''phone'' = Some (length (node_heap w) + 6)"
  "find_node (setupLayout_nodes width height w) ''iot'' = Some (length (node_heap w) + 7)"
  "find_node (setupLayout_nodes width height w) ''cloud'' = Some (length (node_heap w) + 8)"
  unfolding setupLayout_nodes_eq find_node_def
  by (simp_all add: layout_nodes_def Node_new_def nth_append Let_def)

lemma setupLayout_eq:
  "setupLayout width height w
   = w\<lparr>node_heap := node_heap w @ layout_nodes width height,
       network := (network w)
         \<lparr>nodes := map (\<lambda>i. length (node_heap w) + i) [0, 1, 2, 3, 4, 5, 6, 7, 8],
          links := layout_links (length (node_heap w))\<rparr>\<rparr>"
  unfolding setupLayout_def Let_def find_node_setupLayout_nodes
  by (simp add: setupLayout_nodes_eq set_network_def layout_links_def)

lemma node_heap_setupLayout:
  "node_heap (setupLayout width height w) = node_heap w @ layout_nodes width height"
  by (simp add: setupLayout_eq)

lemma nodes_setupLayout:
  "nodes (network (setupLayout width height w))
   = map (\<lambda>i. length (node_heap w) + i) [0, 1, 2, 3, 4, 5, 6, 7, 8]"
  by (simp add: setupLayout_eq)

lemma other_setupLayout:
  "packet_heap (setupLayout width height w) = packet_heap w"
  "packets (network (setupLayout width height w)) = packets (network w)"
  "normalTrafficTimer (network (setupLayout width height w)) = normalTrafficTimer (network w)"
  "hacks (setupLayout width height w) = hacks w"
  "matrix (setupLayout width height w) = matrix w"
  "codeChunks (setupLayout width height w) = codeChunks w"
  "rng (setupLayout width height w) = rng w"
  "canvas_width (setupLayout width height w) = canvas_width w"
  "canvas_height (setupLayout width height w) = canvas_height w"
  by (simp_all add: setupLayout_eq)

lemma layout_ok_setupLayout: "layout_ok (setupLayout width height w)"
  unfolding layout_ok_def node_heap_setupLayout nodes_setupLayout
  by (simp add: layout_nodes_def layout_ids_def Node_new_def nth_append Let_def)

lemma layout_okD:
  assumes "layout_ok w"
  shows "\<exists>x0 x1 x2 x3 x4 x5 x6 x7 x8.
    nodes (network w) = [x0, x1, x2, x3, x4, x5, x6, x7, x8]
    \<and> map (\<lambda>r. node_id (node_heap w ! r)) [x0, x1, x2, x3, x4, x5, x6, x7, x8] = layout_ids
    \<and> (\<forall>r \<in> set [x0, x1, x2, x3, x4, x5, x6, x7, x8]. r < length (node_heap w))"
proof -
  have "length (map (\<lambda>r. node_id (node_heap w ! r)) (nodes (network w))) = length layout_ids"
    using assms by (simp only: layout_ok_def)
  then have len: "length (nodes (network w)) = 9"
    by (simp add: layout_ids_def)
  then obtain x0 x1 x2 x3 x4 x5 x6 x7 x8 where
    "nodes (network w) = [x0, x1, x2, x3, x4, x5, x6, x7, x8]"
    by (auto simp: length_Suc_conv eval_nat_numeral)
  with assms show ?thesis
    unfolding layout_ok_def by metis
qed

lemma find_hacker:
  assumes "layout_ok w"
  shows "\<exists>h. find_node w ''hacker'' = Some h \<and> h < length (node_heap w)
           \<and> h \<in> set (nodes (network w))"
  using layout_okD [OF assms] by (auto simp: find_node_def layout_ids_def)

lemma find_router:
  assumes "layout_ok w"
  shows "\<exists>h. find_node w ''router'' = Some h \<and> h < length (node_heap w)
           \<and> h \<in> set (nodes (network w)) \<and> node_id (node_heap w ! h) = ''router''"
  using layout_okD [OF assms] by (auto simp: find_node_def layout_ids_def)

lemma others_nonempty:
  assumes "layout_ok w"
  shows "filter (\<lambda>r. node_id (node_heap w ! r) \<noteq> ''router''
                     \<and> node_id (node_heap w ! r) \<noteq> ''hacker'') (nodes (network w)) \<noteq> []"
  using layout_okD [OF assms] by (auto simp: layout_ids_def)

lemma targets_nonempty:
  assumes "layout_ok w"
  shows "filter (\<lambda>r. node_id (node_heap w ! r) \<noteq> ''hacker''
                     \<and> node_id (node_heap w ! r) \<noteq> ''router'') (nodes (network w)) \<noteq> []"
  using layout_okD [OF assms] by (auto simp: layout_ids_def)

lemma find_distinct:
  "distinct (map f xs) \<Longrightarrow> r \<in> set xs \<Longrightarrow> find (\<lambda>x. f x = f r) xs = Some r"
  by (induction xs) auto

lemma find_node_id:
  assumes "layout_ok w" and "r \<in> set (nodes (network w))"
  shows "find_node w (node_id (node_heap w ! r)) = Some r"
proof -
  have "distinct (map (\<lambda>r. node_id (node_heap w ! r)) (nodes (network w)))"
    using assms(1) by (simp add: layout_ok_def layout_ids_def)
  from find_distinct [OF this assms(2)] show ?thesis
    by (simp add: find_node_def)
qed

lemma index_random:
  assumes "0 \<le> r" and "r < 1" and "xs \<noteq> []"
  shows "\<exists>x. index xs \<lfloor>r * real (length xs)\<rfloor> = Some x \<and> x \<in> set xs"
proof -
  have pos: "0 < real (length xs)"
    using assms(3) by simp
  have "0 \<le> r * real (length xs)"
    using assms(1) by simp
  then have lo: "0 \<le> \<lfloor>r * real (length xs)\<rfloor>"
    by simp
  have "r * real (length xs) < real (length xs)"
    using assms(2) pos by simp
  then have hi: "\<lfloor>r * real (length xs)\<rfloor> < int (length xs)"
    by (simp add: floor_less_iff)
  from lo hi have "nat \<lfloor>r * real (length xs)\<rfloor> < length xs"
    by (simp only: nat_less_iff)
  with lo hi show ?thesis
    by (simp add: index_def)
qed

lemma sendPacket_found:
  assumes "find_node w a = Some x" and "find_node w b = Some y"
  shows "sendPacket a b c s w
    = w\<lparr>packet_heap := packet_heap w @
            [\<lparr>pkt_link = \<lparr>link_from = Some x, link_to = Some y\<rparr>, pkt_t = 0, pkt_speed = s,
              pkt_color = c\<rparr>],
         network := (network w)\<lparr>packets := packets (network w) @ [length (packet_heap w)]\<rparr>\<rparr>"
  using assms
  by (simp add: sendPacket_def new_Packet_def Packet_new_def set_network_def unfolds)

lemma sendPacket_missing:
  assumes "find_node w a = None \<or> find_node w b = None"
  shows "sendPacket a b c s w = w"
  using assms by (auto simp: sendPacket_def unfolds)

lemma find_node_cong:
  "node_heap w' = node_heap w \<Longrightarrow> nodes (network w') = nodes (network w) \<Longrightarrow>
     find_node w' = find_node w"
  by (simp add: find_node_def fun_eq_iff)

lemma layout_ok_cong:
  "node_heap w' = node_heap w \<Longrightarrow> nodes (network w') = nodes (network w) \<Longrightarrow>
     layout_ok w' = layout_ok w"
  by (simp add: layout_ok_def)

subsection \<open>Updating the objects of a heap in place\<close>

lemma length_fold_update [simp]:
  "length (fold (\<lambda>r h. h[r := f (h ! r)]) rs h) = length h"
  by (induction rs arbitrary: h) simp_all

lemma fold_update_invariant:
  assumes step: "\<And>x. P x \<Longrightarrow> P (f x)"
    and h: "\<forall>x \<in> set h. P x"
  shows "\<forall>x \<in> set (fold (\<lambda>r h. h[r := f (h ! r)]) rs h). P x"
  using h
proof (induction rs arbitrary: h)
  case Nil
  then show ?case by simp
next
  case (Cons r rs)
  have "\<forall>x \<in> set (h[r := f (h ! r)]). P x"
  proof (cases "r < length h")
    case True
    then have "P (f (h ! r))"
      using Cons.prems step by simp
    with Cons.prems show ?thesis
      using set_update_subset_insert [of h r "f (h ! r)"] by auto
  next
    case False
    then have "h[r := f (h ! r)] = h"
      by (simp add: list_update_beyond)
    with Cons.prems show ?thesis by simp
  qed
  from Cons.IH [OF this] show ?case by simp
qed

lemma fold_update_related:
  assumes step: "\<And>x. P x \<Longrightarrow> P (f x) \<and> R x (f x)"
    and refl: "\<And>x. R x x"
    and trans: "\<And>x y z. R x y \<Longrightarrow> R y z \<Longrightarrow> R x z"
    and h: "\<forall>x \<in> set h. P x"
    and i: "i < length h"
  shows "R (h ! i) (fold (\<lambda>r h. h[r := f (h ! r)]) rs h ! i)"
  using h i
proof (induction rs arbitrary: h)
  case Nil
  then show ?case by (simp add: refl)
next
  case (Cons r rs)
  let ?h = "h[r := f (h ! r)]"
  have inv: "\<forall>x \<in> set ?h. P x"
    using fold_update_invariant [of P f h "[r]"] step Cons.prems(1) by simp
  have first: "R (h ! i) (?h ! i)"
  proof (cases "r = i")
    case True
    with Cons.prems step show ?thesis by simp
  next
    case False
    then show ?thesis by (simp add: refl)
  qed
  have "R (?h ! i) (fold (\<lambda>r h. h[r := f (h ! r)]) rs ?h ! i)"
    using Cons.IH [OF inv] Cons.prems(2) by simp
  with first show ?case
    using trans by auto
qed

subsection \<open>Nodes\<close>

lemma Node_update_range:
  assumes "0 \<le> dt" and "0 \<le> hackedAlpha n \<and> hackedAlpha n \<le> 1"
  shows "0 \<le> hackedAlpha (Node_update dt n) \<and> hackedAlpha (Node_update dt n) \<le> 1"
  using assms by (simp add: Node_update_def Let_def)

lemma Node_update_kept: "node_kept n (Node_update dt n)"
  by (simp add: Node_update_def node_kept_def Let_def)

lemma node_kept_refl: "node_kept n n"
  by (simp add: node_kept_def)

lemma node_kept_trans: "node_kept a b \<Longrightarrow> node_kept b c \<Longrightarrow> node_kept a c"
  unfolding node_kept_def by (elim conjE, intro conjI) (erule trans, assumption)+

lemma length_update_nodes [simp]: "length (update_nodes dt rs h) = length h"
  by (simp add: update_nodes_def)

lemma nodes_ok_update_nodes:
  assumes "0 \<le> dt" and "nodes_ok h"
  shows "nodes_ok (update_nodes dt rs h)"
proof -
  have step: "\<And>n. 0 \<le> hackedAlpha n \<and> hackedAlpha n \<le> 1 \<Longrightarrow>
      0 \<le> hackedAlpha (Node_update dt n) \<and> hackedAlpha (Node_update dt n) \<le> 1"
    by (rule Node_update_range [OF assms(1)])
  have h: "\<forall>n \<in> set h. 0 \<le> hackedAlpha n \<and> hackedAlpha n \<le> 1"
    using assms(2) by (simp only: nodes_ok_def)
  have "\<forall>n \<in> set (fold (\<lambda>r h. h[r := Node_update dt (h ! r)]) rs h).
      0 \<le> hackedAlpha n \<and> hackedAlpha n \<le> 1"
    by (rule fold_update_invariant
        [where P = "\<lambda>n. 0 \<le> hackedAlpha n \<and> hackedAlpha n \<le> 1" and f = "Node_update dt",
          OF step h])
  then show ?thesis
    by (simp only: nodes_ok_def update_nodes_def)
qed

lemma update_nodes_kept:
  assumes "i < length h"
  shows "node_kept (h ! i) (update_nodes dt rs h ! i)"
  unfolding update_nodes_def
  using fold_update_related [of "\<lambda>n. True" "Node_update dt" node_kept h i rs]
    Node_update_kept node_kept_refl node_kept_trans assms
  by blast

subsection \<open>Packets\<close>

lemma packet_advanced_refl: "packet_advanced p p"
  by (simp add: packet_advanced_def)

lemma packet_advanced_trans:
  "packet_advanced a b \<Longrightarrow> packet_advanced b c \<Longrightarrow> packet_advanced a c"
  unfolding packet_advanced_def
  by (elim conjE, intro conjI) ((erule trans, assumption)+, erule order_trans, assumption)

lemma Packet_update_advanced:
  assumes "0 \<le> dt" and "0 \<le> pkt_speed p"
  shows "packet_advanced p (Packet_update dt p)"
  using assms by (simp add: packet_advanced_def Packet_update_def)

lemma Packet_update_ok:
  assumes "0 \<le> dt" and "0 \<le> pkt_t p \<and> 120 \<le> pkt_speed p"
  shows "0 \<le> pkt_t (Packet_update dt p) \<and> 120 \<le> pkt_speed (Packet_update dt p)"
  using assms by (simp add: Packet_update_def)

lemma length_update_packets [simp]: "length (update_packets dt rs h) = length h"
  by (simp add: update_packets_def)

lemma packets_ok_update_packets:
  assumes "0 \<le> dt" and "packets_ok h"
  shows "packets_ok (update_packets dt rs h)"
proof -
  have step: "\<And>p. 0 \<le> pkt_t p \<and> 120 \<le> pkt_speed p \<Longrightarrow>
      0 \<le> pkt_t (Packet_update dt p) \<and> 120 \<le> pkt_speed (Packet_update dt p)"
    by (rule Packet_update_ok [OF assms(1)])
  have h: "\<forall>p \<in> set h. 0 \<le> pkt_t p \<and> 120 \<le> pkt_speed p"
    using assms(2) by (simp only: packets_ok_def)
  have "\<forall>p \<in> set (fold (\<lambda>r h. h[r := Packet_update dt (h ! r)]) rs h).
      0 \<le> pkt_t p \<and> 120 \<le> pkt_speed p"
    by (rule fold_update_invariant
        [where P = "\<lambda>p. 0 \<le> pkt_t p \<and> 120 \<le> pkt_speed p" and f = "Packet_update dt",
          OF step h])
  then show ?thesis
    by (simp only: packets_ok_def update_packets_def)
qed

lemma update_packets_advanced:
  assumes "0 \<le> dt" and "packets_ok h" and "i < length h"
  shows "packet_advanced (h ! i) (update_packets dt rs h ! i)"
proof -
  have step: "\<And>p. 0 \<le> pkt_t p \<and> 120 \<le> pkt_speed p \<Longrightarrow>
      (0 \<le> pkt_t (Packet_update dt p) \<and> 120 \<le> pkt_speed (Packet_update dt p))
      \<and> packet_advanced p (Packet_update dt p)"
    using Packet_update_ok [OF assms(1)] Packet_update_advanced [OF assms(1)] by simp
  have "\<forall>p \<in> set h. 0 \<le> pkt_t p \<and> 120 \<le> pkt_speed p"
    using assms(2) by (simp add: packets_ok_def)
  from fold_update_related [of "\<lambda>p. 0 \<le> pkt_t p \<and> 120 \<le> pkt_speed p" "Packet_update dt"
      packet_advanced h i rs, OF step packet_advanced_refl packet_advanced_trans this assms(3)]
  show ?thesis
    by (simp add: update_packets_def)
qed

subsection \<open>Evolution of the heaps\<close>

lemma evolves_refl: "evolves w w"
  by (simp add: evolves_def node_kept_refl packet_advanced_refl)

lemma evolves_trans:
  assumes "evolves a b" and "evolves b c"
  shows "evolves a c"
  unfolding evolves_def
proof (intro conjI allI impI)
  show "length (node_heap a) \<le> length (node_heap c)"
    using assms by (simp add: evolves_def)
  show "length (packet_heap a) \<le> length (packet_heap c)"
    using assms by (simp add: evolves_def)
next
  fix r assume r: "r < length (node_heap a)"
  then have "r < length (node_heap b)"
    using assms(1) by (simp add: evolves_def)
  then have "node_kept (node_heap a ! r) (node_heap b ! r)"
    and "node_kept (node_heap b ! r) (node_heap c ! r)"
    using r assms by (simp_all add: evolves_def)
  then show "node_kept (node_heap a ! r) (node_heap c ! r)"
    by (rule node_kept_trans)
next
  fix r assume r: "r < length (packet_heap a)"
  then have "r < length (packet_heap b)"
    using assms(1) by (simp add: evolves_def)
  then have "packet_advanced (packet_heap a ! r) (packet_heap b ! r)"
    and "packet_advanced (packet_heap b ! r) (packet_heap c ! r)"
    using r assms by (simp_all add: evolves_def)
  then show "packet_advanced (packet_heap a ! r) (packet_heap c ! r)"
    by (rule packet_advanced_trans)
qed

lemma evolves_same_heaps:
  "node_heap w' = node_heap w \<Longrightarrow> packet_heap w' = packet_heap w \<Longrightarrow> evolves w w'"
  unfolding evolves_def node_kept_def packet_advanced_def by simp

lemma event_ok_evolves:
  assumes "evolves w w'" and "event_ok w e"
  shows "event_ok w' e"
proof -
  have len: "length (node_heap w) \<le> length (node_heap w')"
    "length (packet_heap w) \<le> length (packet_heap w')"
    using assms(1) by (simp_all add: evolves_def)
  show ?thesis
    using assms(2) len unfolding event_ok_def
    by (cases "he_hacker e"; cases "he_target e"; cases "he_packet e") simp_all
qed

lemma layout_ok_evolves:
  assumes "evolves w w'" and "nodes (network w') = nodes (network w)" and "layout_ok w"
  shows "layout_ok w'"
proof -
  have "\<forall>r \<in> set (nodes (network w)). r < length (node_heap w') 
      \<and> node_id (node_heap w' ! r) = node_id (node_heap w ! r)"
    using assms(1,3) by (auto simp: layout_ok_def evolves_def node_kept_def)
  then have "map (\<lambda>r. node_id (node_heap w' ! r)) (nodes (network w))
      = map (\<lambda>r. node_id (node_heap w ! r)) (nodes (network w))"
    "\<forall>r \<in> set (nodes (network w)). r < length (node_heap w')"
    by simp_all
  with assms(2,3) show ?thesis
    by (simp add: layout_ok_def)
qed

subsection \<open>Background traffic\<close>

lemma normalTraffic_eq:
  assumes "layout_ok w" and "valid_random rnd"
  shows "\<exists>rt tg. find_node w ''router'' = Some rt \<and> tg \<in> set (nodes (network w))
     \<and> node_id (node_heap w ! tg) \<noteq> ''router'' \<and> node_id (node_heap w ! tg) \<noteq> ''hacker''
     \<and> normalTraffic rnd w
       = Inr (w\<lparr>rng := rng w + 4,
               packet_heap := packet_heap w @
                 [\<lparr>pkt_link = \<lparr>link_from = Some rt, link_to = Some tg\<rparr>, pkt_t = 0,
                   pkt_speed = 120 + rnd (rng w + 2) * 120, pkt_color = ''#00ff88''\<rparr>,
                  \<lparr>pkt_link = \<lparr>link_from = Some tg, link_to = Some rt\<rparr>, pkt_t = 0,
                   pkt_speed = 120 + rnd (rng w + 3) * 120, pkt_color = ''#00ff88''\<rparr>],
               network := (network w)
                 \<lparr>normalTrafficTimer := 0.3 + rnd (rng w) * 0.7,
                  packets := packets (network w)
                    @ [length (packet_heap w), length (packet_heap w) + 1]\<rparr>\<rparr>)"
proof -
  obtain rt where rt: "find_node w ''router'' = Some rt" "node_id (node_heap w ! rt) = ''router''"
    using find_router [OF assms(1)] by blast
  define others where "others = filter (\<lambda>r. node_id (node_heap w ! r) \<noteq> ''router''
      \<and> node_id (node_heap w ! r) \<noteq> ''hacker'') (nodes (network w))"
  have ne: "others \<noteq> []"
    unfolding others_def by (rule others_nonempty [OF assms(1)])
  have r: "0 \<le> rnd (rng w + 1)" "rnd (rng w + 1) < 1"
    using assms(2) by (simp_all add: valid_random_def)
  obtain tg where tg: "index others \<lfloor>rnd (rng w + 1) * real (length others)\<rfloor> = Some tg"
    "tg \<in> set others"
    using index_random [OF r ne] by blast
  have tgn: "tg \<in> set (nodes (network w))"
    and tgi: "node_id (node_heap w ! tg) \<noteq> ''router''" "node_id (node_heap w ! tg) \<noteq> ''hacker''"
    using tg(2) by (simp_all add: others_def)
  have ftg: "find_node w (node_id (node_heap w ! tg)) = Some tg"
    by (rule find_node_id [OF assms(1) tgn])
  define w1 where "w1 = set_network (\<lambda>n. n\<lparr>normalTrafficTimer := 0.3 + rnd (rng w) * 0.7\<rparr>)
      (w\<lparr>rng := rng w + 1\<rparr>)"
  have same1: "node_heap w1 = node_heap w" "nodes (network w1) = nodes (network w)"
    by (simp_all add: w1_def set_network_def)
  define s1 where "s1 = 120 + rnd (rng w + 2) * 120"
  define s2 where "s2 = 120 + rnd (rng w + 3) * 120"
  define w2 where "w2 = sendPacket ''router'' (node_id (node_heap w ! tg)) ''#00ff88'' s1
      (w1\<lparr>rng := rng w + 3\<rparr>)"
  have fn2: "find_node (w1\<lparr>rng := rng w + 3\<rparr>) = find_node w"
    by (rule find_node_cong) (simp_all add: same1)
  have w2: "w2 = (w1\<lparr>rng := rng w + 3\<rparr>)
        \<lparr>packet_heap := packet_heap (w1\<lparr>rng := rng w + 3\<rparr>) @
            [\<lparr>pkt_link = \<lparr>link_from = Some rt, link_to = Some tg\<rparr>, pkt_t = 0, pkt_speed = s1,
              pkt_color = ''#00ff88''\<rparr>],
         network := (network (w1\<lparr>rng := rng w + 3\<rparr>))
           \<lparr>packets := packets (network (w1\<lparr>rng := rng w + 3\<rparr>))
              @ [length (packet_heap (w1\<lparr>rng := rng w + 3\<rparr>))]\<rparr>\<rparr>"
    unfolding w2_def by (rule sendPacket_found) (simp_all add: fn2 rt ftg)
  define w3 where "w3 = sendPacket (node_id (node_heap w ! tg)) ''router'' ''#00ff88'' s2
      (w2\<lparr>rng := rng w + 4\<rparr>)"
  have fn3: "find_node (w2\<lparr>rng := rng w + 4\<rparr>) = find_node w"
    by (rule find_node_cong) (simp_all add: w2 same1)
  have w3: "w3 = (w2\<lparr>rng := rng w + 4\<rparr>)
        \<lparr>packet_heap := packet_heap (w2\<lparr>rng := rng w + 4\<rparr>) @
            [\<lparr>pkt_link = \<lparr>link_from = Some tg, link_to = Some rt\<rparr>, pkt_t = 0, pkt_speed = s2,
              pkt_color = ''#00ff88''\<rparr>],
         network := (network (w2\<lparr>rng := rng w + 4\<rparr>))
           \<lparr>packets := packets (network (w2\<lparr>rng := rng w + 4\<rparr>))
              @ [length (packet_heap (w2\<lparr>rng := rng w + 4\<rparr>))]\<rparr>\<rparr>"
    unfolding w3_def by (rule sendPacket_found) (simp_all add: fn3 rt ftg)
  have fr1: "find_node w1 ''router'' = Some rt"
    using rt(1) find_node_cong [OF same1] by simp
  have "normalTraffic rnd w = Inr w3"
    unfolding normalTraffic_def Let_def w1_def [symmetric]
    by (simp only: fr1 same1 others_def [symmetric] option.case ne if_False tg(1) rt(2) w2_def
        w3_def s1_def s2_def)
  moreover have "w3 = w\<lparr>rng := rng w + 4,
               packet_heap := packet_heap w @
                 [\<lparr>pkt_link = \<lparr>link_from = Some rt, link_to = Some tg\<rparr>, pkt_t = 0,
                   pkt_speed = 120 + rnd (rng w + 2) * 120, pkt_color = ''#00ff88''\<rparr>,
                  \<lparr>pkt_link = \<lparr>link_from = Some tg, link_to = Some rt\<rparr>, pkt_t = 0,
                   pkt_speed = 120 + rnd (rng w + 3) * 120, pkt_color = ''#00ff88''\<rparr>],
               network := (network w)
                 \<lparr>normalTrafficTimer := 0.3 + rnd (rng w) * 0.7,
                  packets := packets (network w)
                    @ [length (packet_heap w), length (packet_heap w) + 1]\<rparr>\<rparr>"
    by (simp add: w3 w2 w1_def set_network_def s1_def s2_def)
  ultimately show ?thesis
    using rt(1) tgn tgi by auto
qed


lemma traffic_step:
  assumes lay: "layout_ok w" and rnd: "valid_random rnd" and pk: "packets_ok (packet_heap w)"
    and refs: "\<forall>r \<in> set (packets (network w)). r < length (packet_heap w)"
  shows "\<exists>w'. (if normalTrafficTimer (network w) \<le> 0 then normalTraffic rnd w else Inr w) = Inr w'
     \<and> node_heap w' = node_heap w \<and> nodes (network w') = nodes (network w)
     \<and> hacks w' = hacks w \<and> matrix w' = matrix w \<and> codeChunks w' = codeChunks w
     \<and> canvas_width w' = canvas_width w \<and> canvas_height w' = canvas_height w
     \<and> packets_ok (packet_heap w')
     \<and> (\<forall>r \<in> set (packets (network w')). r < length (packet_heap w'))
     \<and> length (packet_heap w) \<le> length (packet_heap w')
     \<and> (\<forall>r < length (packet_heap w). packet_heap w' ! r = packet_heap w ! r)"
proof (cases "normalTrafficTimer (network w) \<le> 0")
  case False
  with pk refs show ?thesis by simp
next
  case True
  obtain rt tg where eq: "normalTraffic rnd w
       = Inr (w\<lparr>rng := rng w + 4,
               packet_heap := packet_heap w @
                 [\<lparr>pkt_link = \<lparr>link_from = Some rt, link_to = Some tg\<rparr>, pkt_t = 0,
                   pkt_speed = 120 + rnd (rng w + 2) * 120, pkt_color = ''#00ff88''\<rparr>,
                  \<lparr>pkt_link = \<lparr>link_from = Some tg, link_to = Some rt\<rparr>, pkt_t = 0,
                   pkt_speed = 120 + rnd (rng w + 3) * 120, pkt_color = ''#00ff88''\<rparr>],
               network := (network w)
                 \<lparr>normalTrafficTimer := 0.3 + rnd (rng w) * 0.7,
                  packets := packets (network w)
                    @ [length (packet_heap w), length (packet_heap w) + 1]\<rparr>\<rparr>)"
    using normalTraffic_eq [OF lay rnd] by blast
  have s: "0 \<le> rnd (rng w + 2)" "0 \<le> rnd (rng w + 3)"
    using rnd by (simp_all add: valid_random_def)
  have "packets_ok (packet_heap w @
                 [\<lparr>pkt_link = \<lparr>link_from = Some rt, link_to = Some tg\<rparr>, pkt_t = 0,
                   pkt_speed = 120 + rnd (rng w + 2) * 120, pkt_color = ''#00ff88''\<rparr>,
                  \<lparr>pkt_link = \<lparr>link_from = Some tg, link_to = Some rt\<rparr>, pkt_t = 0,
                   pkt_speed = 120 + rnd (rng w + 3) * 120, pkt_color = ''#00ff88''\<rparr>])"
    using pk s by (simp add: packets_ok_def)
  moreover have "\<forall>r \<in> set (packets (network w) @ [length (packet_heap w), length (packet_heap w) + 1]).
      r < length (packet_heap w) + 2"
    using refs by auto
  ultimately show ?thesis
    using True eq by (simp add: nth_append)
qed

lemma NodeNetworkSystem_update_inv:
  assumes inv: "core_inv w" and rnd: "valid_random rnd" and dt: "0 \<le> dt"
  shows "\<exists>w'. NodeNetworkSystem_update rnd dt w = Inr w' \<and> core_inv w' \<and> evolves w w'
     \<and> hacks w' = hacks w \<and> matrix w' = matrix w \<and> codeChunks w' = codeChunks w
     \<and> canvas_width w' = canvas_width w \<and> canvas_height w' = canvas_height w"
proof -
  define w1 where "w1 = w\<lparr>node_heap := update_nodes dt (nodes (network w)) (node_heap w)\<rparr>"
  define w2 where "w2 = set_network (\<lambda>n. n\<lparr>normalTrafficTimer := normalTrafficTimer n - dt\<rparr>) w1"
  have f2: "node_heap w2 = update_nodes dt (nodes (network w)) (node_heap w)"
    "nodes (network w2) = nodes (network w)" "packet_heap w2 = packet_heap w"
    "packets (network w2) = packets (network w)" "hacks w2 = hacks w" "matrix w2 = matrix w"
    "codeChunks w2 = codeChunks w" "canvas_width w2 = canvas_width w"
    "canvas_height w2 = canvas_height w"
    by (simp_all add: w2_def w1_def set_network_def)
  have ev2: "evolves w w2"
    unfolding evolves_def f2 by (simp add: update_nodes_kept packet_advanced_refl)
  have lay2: "layout_ok w2"
    using layout_ok_evolves [OF ev2 f2(2)] inv by (simp add: core_inv_def)
  have no2: "nodes_ok (node_heap w2)"
    unfolding f2 using nodes_ok_update_nodes [OF dt] inv by (simp add: core_inv_def)
  have pk2: "packets_ok (packet_heap w2)"
    using inv by (simp add: f2 core_inv_def)
  have refs2: "\<forall>r \<in> set (packets (network w2)). r < length (packet_heap w2)"
    using inv by (simp add: f2 core_inv_def active_ok_def)
  obtain w3 where w3: "(if normalTrafficTimer (network w2) \<le> 0 then normalTraffic rnd w2 else Inr w2)
      = Inr w3"
    and f3: "node_heap w3 = node_heap w2" "nodes (network w3) = nodes (network w2)"
      "hacks w3 = hacks w2" "matrix w3 = matrix w2" "codeChunks w3 = codeChunks w2"
      "canvas_width w3 = canvas_width w2" "canvas_height w3 = canvas_height w2"
    and pk3: "packets_ok (packet_heap w3)"
    and refs3: "\<forall>r \<in> set (packets (network w3)). r < length (packet_heap w3)"
    and len3: "length (packet_heap w2) \<le> length (packet_heap w3)"
    and old3: "\<forall>r < length (packet_heap w2). packet_heap w3 ! r = packet_heap w2 ! r"
    using traffic_step [OF lay2 rnd pk2 refs2] by blast
  define h4 where "h4 = update_packets dt (packets (network w3)) (packet_heap w3)"
  define w5 where "w5 = set_network (\<lambda>n. n\<lparr>packets :=
      filter (\<lambda>p. \<not> Packet_isDone (h4 ! p)) (packets n)\<rparr>) (w3\<lparr>packet_heap := h4\<rparr>)"
  have res: "NodeNetworkSystem_update rnd dt w = Inr w5"
    unfolding NodeNetworkSystem_update_def Let_def w1_def [symmetric] w2_def [symmetric]
    by (simp add: w3 w5_def h4_def)
  have f5: "node_heap w5 = node_heap w2" "nodes (network w5) = nodes (network w)"
    "packet_heap w5 = h4"
    "packets (network w5) = filter (\<lambda>p. \<not> Packet_isDone (h4 ! p)) (packets (network w3))"
    "hacks w5 = hacks w" "matrix w5 = matrix w" "codeChunks w5 = codeChunks w"
    "canvas_width w5 = canvas_width w" "canvas_height w5 = canvas_height w"
    by (simp_all add: w5_def set_network_def f3 f2)
  have len4: "length h4 = length (packet_heap w3)"
    by (simp add: h4_def)
  have ev5: "evolves w w5"
    unfolding evolves_def
  proof (intro conjI allI impI)
    show "length (node_heap w) \<le> length (node_heap w5)"
      by (simp add: f5 f2)
    show "length (packet_heap w) \<le> length (packet_heap w5)"
      using len3 by (simp add: f5 len4 f2)
  next
    fix r assume "r < length (node_heap w)"
    then show "node_kept (node_heap w ! r) (node_heap w5 ! r)"
      by (simp add: f5 f2 update_nodes_kept)
  next
    fix r assume r: "r < length (packet_heap w)"
    then have r3: "r < length (packet_heap w3)"
      using len3 by (simp add: f2)
    have "packet_heap w3 ! r = packet_heap w ! r"
      using old3 r by (simp add: f2)
    moreover have "packet_advanced (packet_heap w3 ! r) (h4 ! r)"
      unfolding h4_def by (rule update_packets_advanced [OF dt pk3 r3])
    ultimately show "packet_advanced (packet_heap w ! r) (packet_heap w5 ! r)"
      by (simp add: f5)
  qed
  have lay5: "layout_ok w5"
    using layout_ok_evolves [OF ev5 f5(2)] inv by (simp add: core_inv_def)
  have no5: "nodes_ok (node_heap w5)"
    using no2 by (simp add: f5)
  have pk5: "packets_ok (packet_heap w5)"
    unfolding f5 h4_def by (rule packets_ok_update_packets [OF dt pk3])
  have act5: "active_ok w5"
    unfolding active_ok_def f5 using refs3 by (simp add: len4)
  show ?thesis
    using res lay5 no5 pk5 act5 ev5 f5 by (simp add: core_inv_def)
qed

subsection \<open>Hack events\<close>

lemma set_hackedAlpha_fields [simp]:
  "node_heap (set_hackedAlpha r v w) = (node_heap w)[r := (node_heap w ! r)\<lparr>hackedAlpha := v\<rparr>]"
  "packet_heap (set_hackedAlpha r v w) = packet_heap w"
  "network (set_hackedAlpha r v w) = network w"
  "hacks (set_hackedAlpha r v w) = hacks w"
  by (simp_all add: set_hackedAlpha_def)

lemma nodes_ok_set_hackedAlpha:
  assumes "nodes_ok (node_heap w)" and "0 \<le> v" and "v \<le> 1"
  shows "nodes_ok (node_heap (set_hackedAlpha r v w))"
proof -
  have "set ((node_heap w)[r := (node_heap w ! r)\<lparr>hackedAlpha := v\<rparr>])
      \<subseteq> insert ((node_heap w ! r)\<lparr>hackedAlpha := v\<rparr>) (set (node_heap w))"
    by (rule set_update_subset_insert)
  with assms show ?thesis
    by (auto simp: nodes_ok_def)
qed

lemma evolves_set_hackedAlpha: "evolves w (set_hackedAlpha r v w)"
proof (cases "r < length (node_heap w)")
  case True
  then show ?thesis
    by (simp add: evolves_def packet_advanced_refl node_kept_def nth_list_update)
next
  case False
  then show ?thesis
    by (simp add: evolves_def packet_advanced_refl node_kept_refl list_update_beyond)
qed

lemma core_inv_set_hackedAlpha:
  assumes "core_inv w"
  shows "core_inv (set_hackedAlpha r 1 w)"
proof -
  have "layout_ok (set_hackedAlpha r 1 w)"
    using layout_ok_evolves [OF evolves_set_hackedAlpha, of r 1 w] assms
    by (simp add: core_inv_def)
  moreover have "nodes_ok (node_heap (set_hackedAlpha r 1 w))"
    using nodes_ok_set_hackedAlpha [of w 1 r] assms by (simp add: core_inv_def)
  moreover have "active_ok (set_hackedAlpha r 1 w)"
    using assms by (simp add: core_inv_def active_ok_def)
  ultimately show ?thesis
    using assms by (simp add: core_inv_def)
qed

text \<open>Constructing a packet and pushing it on the active collection.\<close>

lemma core_inv_push:
  assumes inv: "core_inv w" and t: "pkt_t p = 0" and s: "120 \<le> pkt_speed p"
    and w': "w' = set_network (\<lambda>n. n\<lparr>packets := packets n @ [length (packet_heap w)]\<rparr>)
      (w\<lparr>packet_heap := packet_heap w @ [p]\<rparr>)"
  shows "core_inv w' \<and> evolves w w'"
proof -
  have f: "node_heap w' = node_heap w" "nodes (network w') = nodes (network w)"
    "packet_heap w' = packet_heap w @ [p]"
    "packets (network w') = packets (network w) @ [length (packet_heap w)]"
    by (simp_all add: w' set_network_def)
  have ev: "evolves w w'"
    unfolding evolves_def f by (simp add: node_kept_refl packet_advanced_refl nth_append)
  have "layout_ok w'"
    using layout_ok_evolves [OF ev f(2)] inv by (simp add: core_inv_def)
  moreover have "packets_ok (packet_heap w')"
    using inv t s by (simp add: f core_inv_def packets_ok_def)
  moreover have "active_ok w'"
    using inv t by (auto simp: f core_inv_def active_ok_def nth_append Packet_isDone_def)
  ultimately show ?thesis
    using inv ev by (simp add: core_inv_def f)
qed

lemma HackEvent_update_inv:
  assumes inv: "core_inv w" and ok: "event_ok w e"
  shows "\<exists>e' w'. HackEvent_update dt e w = Inr (e', w') \<and> core_inv w' \<and> event_ok w' e'
     \<and> evolves w w' \<and> hacks w' = hacks w \<and> nodes (network w') = nodes (network w)"
proof -
  obtain h t where h: "he_hacker e = Some h" "h < length (node_heap w)"
    and t: "he_target e = Some t" "t < length (node_heap w)"
    using ok by (auto simp: event_ok_def split: option.splits)
  show ?thesis
  proof (cases "he_state e")
    case prepare
    then have "he_packet e = None"
      using ok by (auto simp: event_ok_def split: option.splits)
    with prepare h t show ?thesis
      using core_inv_set_hackedAlpha [OF inv, of h] evolves_set_hackedAlpha [of w h 1]
      by (simp add: HackEvent_update_def Let_def event_ok_def)
  next
    case launch
    then have np: "he_packet e = None"
      using ok by (auto simp: event_ok_def split: option.splits)
    define p where "p = Packet_new \<lparr>link_from = he_hacker e, link_to = he_target e\<rparr> ''#ff0066'' 260"
    define w' where "w' = set_network (\<lambda>n. n\<lparr>packets := packets n @ [length (packet_heap w)]\<rparr>)
      (w\<lparr>packet_heap := packet_heap w @ [p]\<rparr>)"
    have "core_inv w' \<and> evolves w w'"
      by (rule core_inv_push [OF inv _ _ w'_def]) (simp_all add: p_def Packet_new_def)
    moreover have "HackEvent_update dt e w
        = Inr (e\<lparr>he_timer := he_timer e + dt, he_packet := Some (length (packet_heap w)),
                he_state := inFlight\<rparr>, w')"
      using launch by (simp add: HackEvent_update_def Let_def new_Packet_def w'_def p_def)
    moreover have "hacks w' = hacks w" "nodes (network w') = nodes (network w)"
      "length (node_heap w') = length (node_heap w)"
      "length (packet_heap w') = Suc (length (packet_heap w))"
      by (simp_all add: w'_def set_network_def)
    ultimately show ?thesis
      using h t by (simp add: event_ok_def)
  next
    case inFlight
    then obtain p where p: "he_packet e = Some p" "p < length (packet_heap w)"
      using ok by (auto simp: event_ok_def split: option.splits)
    show ?thesis
    proof (cases "Packet_isDone (packet_heap w ! p)")
      case True
      with inFlight p h t show ?thesis
        using core_inv_set_hackedAlpha [OF inv, of t] evolves_set_hackedAlpha [of w t 1]
        by (simp add: HackEvent_update_def Let_def event_ok_def)
    next
      case False
      with inFlight p h t inv show ?thesis
        by (simp add: HackEvent_update_def Let_def event_ok_def evolves_refl)
    qed
  next
    case impact
    then obtain p where p: "he_packet e = Some p" "p < length (packet_heap w)"
      using ok by (auto simp: event_ok_def split: option.splits)
    with impact h t inv show ?thesis
      by (simp add: HackEvent_update_def Let_def event_ok_def evolves_refl)
  next
    case hack_done
    then obtain p where p: "he_packet e = Some p" "p < length (packet_heap w)"
      using ok by (auto simp: event_ok_def split: option.splits)
    with hack_done h t inv show ?thesis
      by (simp add: HackEvent_update_def Let_def event_ok_def evolves_refl)
  qed
qed

lemma update_events_inv:
  assumes "core_inv w" and "\<forall>e \<in> set es. event_ok w e"
  shows "\<exists>es' w'. update_events dt es w = Inr (es', w') \<and> core_inv w'
     \<and> (\<forall>e \<in> set es'. event_ok w' e) \<and> evolves w w' \<and> hacks w' = hacks w
     \<and> nodes (network w') = nodes (network w) \<and> length es' = length es"
  using assms
proof (induction es arbitrary: w)
  case Nil
  then show ?case by (simp add: evolves_refl)
next
  case (Cons e es)
  from Cons.prems have ok: "event_ok w e"
    by simp
  obtain e' w1 where 1: "HackEvent_update dt e w = Inr (e', w1)" "core_inv w1" "event_ok w1 e'"
    "evolves w w1" "hacks w1 = hacks w" "nodes (network w1) = nodes (network w)"
    using HackEvent_update_inv [OF Cons.prems(1) ok] by blast
  have "\<forall>x \<in> set es. event_ok w1 x"
    using Cons.prems(2) event_ok_evolves [OF 1(4)] by simp
  from Cons.IH [OF 1(2) this]
  obtain es' w2 where 2: "update_events dt es w1 = Inr (es', w2)" "core_inv w2"
    "\<forall>x \<in> set es'. event_ok w2 x" "evolves w1 w2" "hacks w2 = hacks w1"
    "nodes (network w2) = nodes (network w1)" "length es' = length es"
    by blast
  have "event_ok w2 e'"
    by (rule event_ok_evolves [OF 2(4) 1(3)])
  moreover have "evolves w w2"
    by (rule evolves_trans [OF 1(4) 2(4)])
  ultimately show ?case
    using 1 2 by simp
qed

lemma HackEvent_new_ok:
  assumes lay: "layout_ok w" and rnd: "valid_random rnd"
  shows "event_ok w (fst (HackEvent_new rnd w)) \<and> he_state (fst (HackEvent_new rnd w)) = prepare
     \<and> he_timer (fst (HackEvent_new rnd w)) = 0
     \<and> snd (HackEvent_new rnd w) = w\<lparr>rng := rng w + 1\<rparr>"
proof -
  obtain h where h: "find_node w ''hacker'' = Some h" "h < length (node_heap w)"
    using find_hacker [OF lay] by blast
  define targets where "targets = filter (\<lambda>r. node_id (node_heap w ! r) \<noteq> ''hacker''
      \<and> node_id (node_heap w ! r) \<noteq> ''router'') (nodes (network w))"
  have ne: "targets \<noteq> []"
    unfolding targets_def by (rule targets_nonempty [OF lay])
  have r: "0 \<le> rnd (rng w)" "rnd (rng w) < 1"
    using rnd by (simp_all add: valid_random_def)
  obtain t where t: "index targets \<lfloor>rnd (rng w) * real (length targets)\<rfloor> = Some t"
    "t \<in> set targets"
    using index_random [OF r ne] by blast
  have "t \<in> set (nodes (network w))"
    using t(2) by (simp add: targets_def)
  then have tl: "t < length (node_heap w)"
    using lay by (simp add: layout_ok_def)
  show ?thesis
    unfolding HackEvent_new_def Let_def targets_def [symmetric]
    using h t(1) tl by (simp add: event_ok_def)
qed

lemma core_inv_cong:
  assumes "node_heap w' = node_heap w" and "packet_heap w' = packet_heap w"
    and "nodes (network w') = nodes (network w)" and "packets (network w') = packets (network w)"
  shows "core_inv w' = core_inv w"
  using assms by (simp add: core_inv_def layout_ok_def active_ok_def)

lemma event_ok_cong:
  assumes "node_heap w' = node_heap w" and "packet_heap w' = packet_heap w"
  shows "event_ok w' e = event_ok w e"
  using assms unfolding event_ok_def
  by (cases "he_hacker e"; cases "he_target e"; cases "he_packet e") simp_all

lemma world_inv_iff:
  "world_inv w \<longleftrightarrow> core_inv w \<and> (\<forall>e \<in> set (events (hacks w)). event_ok w e)"
  by (auto simp: world_inv_def core_inv_def)

lemma HackSystem_spawn_inv:
  assumes inv: "world_inv w" and rnd: "valid_random rnd"
  shows "world_inv (HackSystem_spawn rnd w) \<and> evolves w (HackSystem_spawn rnd w)
     \<and> length (events (hacks (HackSystem_spawn rnd w))) = Suc (length (events (hacks w)))"
proof -
  define w1 where "w1 = set_hacks (\<lambda>s. s\<lparr>cooldown := 5 + rnd (rng w) * 10\<rparr>) (w\<lparr>rng := rng w + 1\<rparr>)"
  have f1: "node_heap w1 = node_heap w" "packet_heap w1 = packet_heap w"
    "nodes (network w1) = nodes (network w)" "packets (network w1) = packets (network w)"
    "events (hacks w1) = events (hacks w)"
    by (simp_all add: w1_def set_hacks_def)
  have c1: "core_inv w1"
    using inv core_inv_cong [OF f1(1-4)] by (simp add: world_inv_iff)
  then have lay1: "layout_ok w1"
    by (simp add: core_inv_def)
  define e where "e = fst (HackEvent_new rnd w1)"
  have e: "event_ok w1 e" "snd (HackEvent_new rnd w1) = w1\<lparr>rng := rng w1 + 1\<rparr>"
    using HackEvent_new_ok [OF lay1 rnd] by (simp_all add: e_def)
  define w3 where "w3 = set_hacks (\<lambda>s. s\<lparr>events := events s @ [e]\<rparr>) (w1\<lparr>rng := rng w1 + 1\<rparr>)"
  have eq: "HackSystem_spawn rnd w = w3"
    unfolding HackSystem_spawn_def Let_def w1_def [symmetric]
    by (simp add: case_prod_unfold e w3_def e_def)
  have f3: "node_heap w3 = node_heap w" "packet_heap w3 = packet_heap w"
    "nodes (network w3) = nodes (network w)" "packets (network w3) = packets (network w)"
    "events (hacks w3) = events (hacks w) @ [e]"
    by (simp_all add: w3_def set_hacks_def f1)
  have "core_inv w3"
    using inv core_inv_cong [OF f3(1-4)] by (simp add: world_inv_iff)
  moreover have "\<forall>x \<in> set (events (hacks w3)). event_ok w3 x"
    using inv e(1) event_ok_cong [OF f3(1,2)] event_ok_cong [OF f1(1,2)]
    by (auto simp: f3 world_inv_iff)
  moreover have "evolves w w3"
    by (rule evolves_same_heaps [OF f3(1,2)])
  ultimately show ?thesis
    by (simp add: eq world_inv_iff f3)
qed

lemma HackSystem_update_inv:
  assumes inv: "world_inv w" and rnd: "valid_random rnd"
  shows "\<exists>w'. HackSystem_update rnd dt w = Inr w' \<and> world_inv w' \<and> evolves w w'"
proof -
  define w1 where "w1 = set_hacks (\<lambda>s. s\<lparr>cooldown := cooldown s - dt\<rparr>) w"
  have f1: "node_heap w1 = node_heap w" "packet_heap w1 = packet_heap w"
    "nodes (network w1) = nodes (network w)" "packets (network w1) = packets (network w)"
    "events (hacks w1) = events (hacks w)"
    by (simp_all add: w1_def set_hacks_def)
  have inv1: "world_inv w1"
    using inv core_inv_cong [OF f1(1-4)] event_ok_cong [OF f1(1,2)]
    by (simp add: world_inv_iff f1)
  have ev1: "evolves w w1"
    by (rule evolves_same_heaps [OF f1(1,2)])
  define w2 where "w2 = (if cooldown (hacks w1) \<le> 0 then HackSystem_spawn rnd w1 else w1)"
  have inv2: "world_inv w2" and ev2: "evolves w1 w2"
    using HackSystem_spawn_inv [OF inv1 rnd] inv1 by (simp_all add: w2_def evolves_refl)
  obtain es w3 where 3: "update_events dt (events (hacks w2)) w2 = Inr (es, w3)" "core_inv w3"
    "\<forall>e \<in> set es. event_ok w3 e" "evolves w2 w3"
    using update_events_inv [of w2 "events (hacks w2)" dt] inv2 by (auto simp: world_inv_iff)
  define w4 where "w4 = set_hacks (\<lambda>s. s\<lparr>events := filter (\<lambda>e. \<not> HackEvent_isDone e) es\<rparr>) w3"
  have eq: "HackSystem_update rnd dt w = Inr w4"
    unfolding HackSystem_update_def Let_def w1_def [symmetric] w2_def [symmetric]
    by (simp add: 3(1) w4_def)
  have f4: "node_heap w4 = node_heap w3" "packet_heap w4 = packet_heap w3"
    "nodes (network w4) = nodes (network w3)" "packets (network w4) = packets (network w3)"
    "events (hacks w4) = filter (\<lambda>e. \<not> HackEvent_isDone e) es"
    by (simp_all add: w4_def set_hacks_def)
  have "core_inv w4"
    using 3(2) core_inv_cong [OF f4(1-4)] by simp
  moreover have "\<forall>e \<in> set (events (hacks w4)). event_ok w4 e"
    using 3(3) event_ok_cong [OF f4(1,2)] by (simp add: f4)
  moreover have "evolves w w4"
    using evolves_trans [OF ev1 evolves_trans [OF ev2 evolves_trans [OF 3(4)
      evolves_same_heaps [OF f4(1,2)]]]] .
  ultimately show ?thesis
    by (simp add: eq world_inv_iff)
qed

subsection \<open>Frames, resize events and the start\<close>

lemma update_inv:
  assumes inv: "world_inv w" and rnd: "valid_random rnd" and dt: "0 \<le> dt"
  shows "\<exists>w'. update rnd dt w = Inr w' \<and> world_inv w' \<and> evolves w w'"
proof -
  define m where "m = MatrixRainSystem_update rnd (rng w) dt (canvas_width w) (canvas_height w)
      (matrix w)"
  define c where "c = CodeChunkSystem_update rnd (snd m) dt (canvas_width w) (canvas_height w)
      (codeChunks w)"
  define w1 where "w1 = w\<lparr>matrix := fst m, codeChunks := fst c, rng := snd c\<rparr>"
  have f1: "node_heap w1 = node_heap w" "packet_heap w1 = packet_heap w"
    "nodes (network w1) = nodes (network w)" "packets (network w1) = packets (network w)"
    "hacks w1 = hacks w"
    by (simp_all add: w1_def)
  have c1: "core_inv w1"
    using inv core_inv_cong [OF f1(1-4)] by (simp add: world_inv_iff)
  obtain w2 where 2: "NodeNetworkSystem_update rnd dt w1 = Inr w2" "core_inv w2" "evolves w1 w2"
    "hacks w2 = hacks w1"
    using NodeNetworkSystem_update_inv [OF c1 rnd dt] by blast
  have "\<forall>e \<in> set (events (hacks w1)). event_ok w1 e"
    using inv event_ok_cong [OF f1(1,2)] by (simp add: world_inv_iff f1)
  then have inv2: "world_inv w2"
    using 2(2,4) event_ok_evolves [OF 2(3)] by (simp add: world_inv_iff)
  obtain w3 where 3: "HackSystem_update rnd dt w2 = Inr w3" "world_inv w3" "evolves w2 w3"
    using HackSystem_update_inv [OF inv2 rnd] by blast
  have "update rnd dt w = Inr w3"
    unfolding update_def Let_def case_prod_unfold m_def [symmetric] c_def [symmetric]
      w1_def [symmetric]
    by (simp add: 2(1) 3(1))
  moreover have "evolves w w3"
    using evolves_trans [OF evolves_same_heaps [OF f1(1,2)] evolves_trans [OF 2(3) 3(3)]] .
  ultimately show ?thesis
    using 3(2) by simp
qed

lemma world_inv_draw: "world_inv (draw w) = world_inv w"
proof -
  have f: "node_heap (draw w) = node_heap w" "packet_heap (draw w) = packet_heap w"
    "nodes (network (draw w)) = nodes (network w)"
    "packets (network (draw w)) = packets (network w)" "hacks (draw w) = hacks w"
    by (simp_all add: draw_def)
  show ?thesis
    using core_inv_cong [OF f(1-4)] event_ok_cong [OF f(1,2)] by (simp add: world_inv_iff f)
qed

lemma evolves_draw: "evolves w (draw w)"
  by (rule evolves_same_heaps) (simp_all add: draw_def)

lemma nodes_ok_append_layout:
  assumes "nodes_ok h"
  shows "nodes_ok (h @ layout_nodes width height)"
  using assms by (simp add: nodes_ok_def layout_nodes_def Node_new_def Let_def)

lemma world_inv_setupLayout:
  assumes "nodes_ok (node_heap w)" and "packets_ok (packet_heap w)" and "active_ok w"
    and "\<forall>e \<in> set (events (hacks w)). event_ok w e"
  shows "world_inv (setupLayout width height w) \<and> evolves w (setupLayout width height w)"
proof -
  let ?w = "setupLayout width height w"
  have ev: "evolves w ?w"
    by (simp add: evolves_def node_heap_setupLayout other_setupLayout nth_append node_kept_refl
        packet_advanced_refl)
  have "nodes_ok (node_heap ?w)"
    using nodes_ok_append_layout [OF assms(1)] by (simp add: node_heap_setupLayout)
  moreover have "active_ok ?w"
    using assms(3) by (simp add: active_ok_def other_setupLayout)
  moreover have "\<forall>e \<in> set (events (hacks ?w)). event_ok ?w e"
    using assms(4) event_ok_evolves [OF ev] by (simp add: other_setupLayout)
  ultimately show ?thesis
    using assms(2) ev layout_ok_setupLayout [of width height w]
    by (simp add: world_inv_def other_setupLayout)
qed

lemma on_resize_inv:
  assumes "world_inv w"
  shows "world_inv (on_resize rnd width height w) \<and> evolves w (on_resize rnd width height w)"
proof -
  define m where "m = MatrixRainSystem_reset rnd (rng w) width height (matrix w)"
  define w2 where "w2 = w\<lparr>canvas_width := width, canvas_height := height, matrix := fst m,
      rng := snd m\<rparr>"
  have eq: "on_resize rnd width height w = setupLayout width height w2"
    by (simp add: on_resize_def Let_def case_prod_unfold w2_def m_def)
  have f2: "node_heap w2 = node_heap w" "packet_heap w2 = packet_heap w"
    "network w2 = network w" "hacks w2 = hacks w"
    by (simp_all add: w2_def)
  have "world_inv (setupLayout width height w2) \<and> evolves w2 (setupLayout width height w2)"
    using assms event_ok_cong [OF f2(1,2)]
    by (intro world_inv_setupLayout) (simp_all add: world_inv_def f2 active_ok_def)
  moreover have "evolves w w2"
    by (rule evolves_same_heaps [OF f2(1,2)])
  ultimately show ?thesis
    using evolves_trans by (auto simp: eq)
qed

lemma world_inv_start: "world_inv (start rnd width height)"
proof -
  define m where "m = MatrixRainSystem_new rnd 0 width height"
  define w0 where "w0 = \<lparr>node_heap = [], packet_heap = [], matrix = fst m,
      codeChunks = CodeChunkSystem_new,
      network = \<lparr>nodes = [], links = [], packets = [], normalTrafficTimer = 0\<rparr>,
      hacks = HackSystem_new, canvas_width = width, canvas_height = height, rng = snd m\<rparr>"
  have eq: "start rnd width height = setupLayout width height w0"
    by (simp add: start_def Let_def case_prod_unfold NodeNetworkSystem_new_def w0_def m_def)
  have "world_inv (setupLayout width height w0) \<and> evolves w0 (setupLayout width height w0)"
    by (intro world_inv_setupLayout)
      (simp_all add: w0_def nodes_ok_def packets_ok_def active_ok_def HackSystem_new_def)
  then show ?thesis
    by (simp add: eq)
qed

lemma reachable_inv:
  assumes "reachable rnd w" and "valid_random rnd"
  shows "world_inv w"
  using assms
proof (induction rule: reachable.induct)
  case (start width height)
  show ?case by (rule world_inv_start)
next
  case (frame w dt w')
  then show ?case
    using update_inv [of w rnd dt] by (auto simp: world_inv_draw)
next
  case (resize w width height)
  then show ?case
    using on_resize_inv [of w rnd width height] by simp
qed

lemma find_node_setupLayout:
  "find_node (setupLayout width height w) = find_node (setupLayout_nodes width height w)"
  by (rule find_node_cong) (simp_all add: setupLayout_eq setupLayout_nodes_eq)

lemma start_eq:
  "start rnd width height
   = \<lparr>node_heap = layout_nodes width height, packet_heap = [],
      matrix = fst (MatrixRainSystem_new rnd 0 width height),
      codeChunks = CodeChunkSystem_new,
      network = \<lparr>nodes = [0, 1, 2, 3, 4, 5, 6, 7, 8], links = layout_links 0, packets = [],
        normalTrafficTimer = 0\<rparr>,
      hacks = HackSystem_new, canvas_width = width, canvas_height = height,
      rng = snd (MatrixRainSystem_new rnd 0 width height)\<rparr>"
  by (simp add: start_def NodeNetworkSystem_new_def setupLayout_eq unfolds)

lemma find_node_start:
  "find_node (start rnd width height) ''hacker'' = Some 0"
  "find_node (start rnd width height) ''desktop1'' = Some 2"
  "find_node (start rnd width height) ''router'' = Some 4"
  "find_node (start rnd width height) ''nowhere'' = None"
  unfolding start_eq find_node_def
  by (simp_all add: layout_nodes_def Node_new_def Let_def)

subsection \<open>A rain column over a sequence of updates\<close>

lemma MatrixColumn_update_range:
  assumes rnd: "valid_random rnd" and h: "0 < height" and dt: "0 \<le> dt"
    and c: "50 \<le> col_speed c \<and> - height < col_y c \<and> col_y c \<le> height + 100"
  shows "50 \<le> col_speed (fst (MatrixColumn_update rnd k dt height c))
     \<and> - height < col_y (fst (MatrixColumn_update rnd k dt height c))
     \<and> col_y (fst (MatrixColumn_update rnd k dt height c)) \<le> height + 100"
proof -
  have r: "0 \<le> rnd k" "rnd k < 1"
    using rnd by (simp_all add: valid_random_def)
  have lo: "- height < rnd k * - height"
    using r(2) h by simp
  have hi: "rnd k * - height \<le> 0"
    using r(1) h by (simp add: mult_nonneg_nonpos)
  have "0 \<le> col_speed c * dt"
    using c dt by simp
  then have adv: "- height < col_y c + col_speed c * dt"
    using c by linarith
  show ?thesis
    using c lo hi adv h by (simp add: MatrixColumn_update_def Let_def)
qed

lemma MatrixColumn_new_range:
  assumes rnd: "valid_random rnd" and h: "0 < height"
  shows "50 \<le> col_speed (fst (MatrixColumn_new rnd k x height))
     \<and> - height < col_y (fst (MatrixColumn_new rnd k x height))
     \<and> col_y (fst (MatrixColumn_new rnd k x height)) \<le> 0"
proof -
  have r: "0 \<le> rnd k" "rnd k < 1" "0 \<le> rnd (k + 1)"
    using rnd by (simp_all add: valid_random_def)
  have lo: "- height < rnd k * - height"
    using r(2) h by simp
  have hi: "rnd k * - height \<le> 0"
    using r(1) h by (simp add: mult_nonneg_nonpos)
  show ?thesis
    using lo hi r(3) by (simp add: MatrixColumn_new_def)
qed

lemma MatrixColumn_updates_range:
  assumes rnd: "valid_random rnd" and h: "0 < height" and dts: "\<forall>dt \<in> set dts. 0 \<le> dt"
    and c: "50 \<le> col_speed c \<and> - height < col_y c \<and> col_y c \<le> height + 100"
  shows "50 \<le> col_speed (fst (MatrixColumn_updates rnd k dts height c))
     \<and> - height < col_y (fst (MatrixColumn_updates rnd k dts height c))
     \<and> col_y (fst (MatrixColumn_updates rnd k dts height c)) \<le> height + 100"
  using dts c
proof (induction dts arbitrary: k c)
  case Nil
  then show ?case by simp
next
  case (Cons dt dts)
  have dt: "0 \<le> dt"
    using Cons.prems(1) by simp
  have rest: "\<forall>dt \<in> set dts. 0 \<le> dt"
    using Cons.prems(1) by simp
  from Cons.IH [OF rest MatrixColumn_update_range [OF rnd h dt Cons.prems(2)]]
  show ?case
    by (simp add: case_prod_unfold Let_def)
qed

subsection \<open>A code chunk over a sequence of updates\<close>

lemma CodeChunk_update_alpha:
  assumes dt: "0 \<le> dt"
    and c: "alpha c \<le> 0.8 \<and> (state c \<noteq> fadeOut \<longrightarrow> 0 \<le> alpha c)"
  shows "alpha (fst (CodeChunk_update rnd k dt c)) \<le> 0.8
     \<and> (state (fst (CodeChunk_update rnd k dt c)) \<noteq> fadeOut
          \<longrightarrow> 0 \<le> alpha (fst (CodeChunk_update rnd k dt c)))"
proof (cases "state c")
  case fadeIn
  with c dt show ?thesis
    by (simp add: CodeChunk_update_def Let_def)
next
  case hold
  with c dt show ?thesis
    by (cases "holdTime c") (simp_all add: CodeChunk_update_def Let_def)
next
  case fadeOut
  with c dt show ?thesis
    by (simp add: CodeChunk_update_def Let_def)
qed

lemma CodeChunk_updates_alpha:
  assumes dts: "\<forall>dt \<in> set dts. 0 \<le> dt"
    and c: "alpha c \<le> 0.8 \<and> (state c \<noteq> fadeOut \<longrightarrow> 0 \<le> alpha c)"
  shows "alpha (fst (CodeChunk_updates rnd k dts c)) \<le> 0.8
     \<and> (state (fst (CodeChunk_updates rnd k dts c)) \<noteq> fadeOut
          \<longrightarrow> 0 \<le> alpha (fst (CodeChunk_updates rnd k dts c)))"
  using dts c
proof (induction dts arbitrary: k c)
  case Nil
  then show ?case by simp
next
  case (Cons dt dts)
  have dt: "0 \<le> dt"
    using Cons.prems(1) by simp
  have rest: "\<forall>dt \<in> set dts. 0 \<le> dt"
    using Cons.prems(1) by simp
  from Cons.IH [OF rest CodeChunk_update_alpha [OF dt Cons.prems(2)]]
  show ?case
    by (simp add: case_prod_unfold Let_def)
qed

lemma CodeChunk_update_step:
  "alpha (fst (CodeChunk_update rnd k dt c))
   = (case state c of
        fadeIn \<Rightarrow> min 0.8 (alpha c + dt * 0.5)
      | hold \<Rightarrow> alpha c
      | fadeOut \<Rightarrow> alpha c - dt * 0.3)"
proof (cases "state c")
  case fadeIn
  then show ?thesis
    by (simp add: CodeChunk_update_def Let_def min_def)
next
  case hold
  then show ?thesis
    by (cases "holdTime c") (simp_all add: CodeChunk_update_def Let_def)
next
  case fadeOut
  then show ?thesis
    by (simp add: CodeChunk_update_def Let_def)
qed

subsection \<open>Three frames\<close>

lemmas start_defs = start_eq MatrixRainSystem_new_def MatrixRainSystem_reset_def reset_loop.simps
  spacing_def
  MatrixColumn_new_def layout_nodes_def Node_new_def CodeChunkSystem_new_def HackSystem_new_def

lemmas update_defs = update_def MatrixRainSystem_update_def MatrixColumn_update_def
  CodeChunkSystem_update_def CodeChunkSystem_advance_def CodeChunkSystem_spawn_def randomSnippet_def
  index_def snippets_def CodeChunk_new_def CodeChunk_update_def isDead_def
  NodeNetworkSystem_update_def update_nodes_def Node_update_def set_network_def normalTraffic_def
  find_node_def sendPacket_def new_Packet_def Packet_new_def update_packets_def Packet_update_def
  Packet_isDone_def HackSystem_update_def set_hacks_def HackSystem_spawn_def HackEvent_new_def
  HackEvent_update_def HackEvent_isDone_def set_hackedAlpha_def rnd_half_def layout_links_def
  Let_def case_prod_unfold

lemmas draw_defs = draw_def MatrixRainSystem_draw_def MatrixColumn_draw_def

lemma valid_random_half: "valid_random rnd_half"
  by (simp add: valid_random_def rnd_half_def)

lemma frame1: "update rnd_half 1 (start rnd_half 32 32) = Inr world1"
  by (simp add: start_defs update_defs world1_def)

lemma frame2: "update rnd_half 5 (draw world1) = Inr world2"
  by (simp add: draw_defs world1_def world2_def update_defs)

lemma frame3: "update rnd_half 4 (draw world2) = Inr world3"
  by (simp add: draw_defs world2_def world3_def update_defs)

lemma reachable_world1: "reachable rnd_half (draw world1)"
  by (rule reachable.frame [OF reachable.start _ frame1]) simp

lemma reachable_world2: "reachable rnd_half (draw world2)"
  by (rule reachable.frame [OF reachable_world1 _ frame2]) simp

lemma reachable_world3: "reachable rnd_half (draw world3)"
  by (rule reachable.frame [OF reachable_world2 _ frame3]) simp


subsection \<open>Writes of the highlight\<close>

lemma Node_update_alpha:
  "hackedAlpha (Node_update dt n)
   = (if 0 < hackedAlpha n then max 0 (hackedAlpha n - dt * 0.2) else hackedAlpha n)"
  by (simp add: Node_update_def Let_def max_def)

lemma nth_set_hackedAlpha:
  assumes "r < length h"
  shows "hackedAlpha (h[a := (h ! a)\<lparr>hackedAlpha := v\<rparr>] ! r)
     = (if r = a then v else hackedAlpha (h ! r))"
proof (cases "a < length h")
  case True
  with assms show ?thesis
    by (auto simp: nth_list_update)
next
  case False
  with assms show ?thesis
    by (auto simp: list_update_beyond)
qed

lemma HackEvent_update_alpha:
  assumes "HackEvent_update dt e w = Inr (e', w')" and "r < length (node_heap w)"
  shows "hackedAlpha (node_heap w' ! r) = hackedAlpha (node_heap w ! r)
     \<or> hackedAlpha (node_heap w' ! r) = 1"
proof (cases "he_state e")
  case prepare
  with assms show ?thesis
    by (cases "he_hacker e")
      (auto simp: HackEvent_update_def Let_def nth_set_hackedAlpha split: if_splits)
next
  case launch
  with assms show ?thesis
    by (auto simp: HackEvent_update_def Let_def new_Packet_def set_network_def)
next
  case inFlight
  with assms show ?thesis
    by (cases "he_packet e"; cases "he_target e")
      (auto simp: HackEvent_update_def Let_def nth_set_hackedAlpha split: if_splits)
next
  case impact
  with assms show ?thesis
    by (auto simp: HackEvent_update_def Let_def split: if_splits)
next
  case hack_done
  with assms show ?thesis
    by (auto simp: HackEvent_update_def Let_def)
qed

subsection \<open>The active collection after the update of the network\<close>

lemma NodeNetworkSystem_update_active:
  assumes "NodeNetworkSystem_update rnd dt w = Inr w'"
  shows "\<forall>r \<in> set (packets (network w')). pkt_t (packet_heap w' ! r) < 1"
  using assms
  by (auto simp: NodeNetworkSystem_update_def Let_def set_network_def Packet_isDone_def
      split: sum.splits)

lemma reachable_packets:
  assumes "valid_random rnd" and "reachable rnd v"
  shows "(\<forall>q \<in> set (packet_heap v). 0 \<le> pkt_t q \<and> 120 \<le> pkt_speed q)
     \<and> (\<forall>r \<in> set (packets (network v)). r < length (packet_heap v)
          \<and> 0 \<le> pkt_t (packet_heap v ! r) \<and> pkt_t (packet_heap v ! r) < 1)"
proof -
  have inv: "world_inv v"
    by (rule reachable_inv [OF assms(2,1)])
  then have pk: "\<forall>q \<in> set (packet_heap v). 0 \<le> pkt_t q \<and> 120 \<le> pkt_speed q"
    by (simp add: world_inv_def packets_ok_def)
  have act: "\<forall>r \<in> set (packets (network v)). r < length (packet_heap v)
      \<and> pkt_t (packet_heap v ! r) < 1"
    using inv by (simp add: world_inv_def active_ok_def Packet_isDone_def not_le)
  show ?thesis
  proof (intro conjI ballI)
    fix q assume "q \<in> set (packet_heap v)"
    with pk show "0 \<le> pkt_t q" "120 \<le> pkt_speed q"
      by simp_all
  next
    fix r assume r: "r \<in> set (packets (network v))"
    with act show "r < length (packet_heap v)" "pkt_t (packet_heap v ! r) < 1"
      by simp_all
    then have "packet_heap v ! r \<in> set (packet_heap v)"
      by simp
    with pk show "0 \<le> pkt_t (packet_heap v ! r)"
      by simp
  qed
qed

lemma update_packet_monotone:
  assumes "valid_random rnd" and "reachable rnd v" and "0 \<le> dt" and "update rnd dt v = Inr v'"
    and "r < length (packet_heap v)"
  shows "pkt_t (packet_heap v ! r) \<le> pkt_t (packet_heap v' ! r)"
proof -
  have "world_inv v"
    by (rule reachable_inv [OF assms(2,1)])
  from update_inv [OF this assms(1,3)] assms(4) have "evolves v v'"
    by auto
  with assms(5) show ?thesis
    by (simp add: evolves_def packet_advanced_def)
qed

subsection \<open>Old objects after a new layout\<close>

lemma Packet_position_cong:
  assumes "link_from (pkt_link p) = Some a" and "link_to (pkt_link p) = Some b"
    and "node_heap w' ! a = node_heap w ! a" and "node_heap w' ! b = node_heap w ! b"
  shows "Packet_position w' p = Packet_position w p"
  using assms by (simp add: Packet_position_def)

lemma on_resize_eq:
  "on_resize rnd width height w
   = setupLayout width height
       (w\<lparr>canvas_width := width, canvas_height := height,
          matrix := fst (MatrixRainSystem_reset rnd (rng w) width height (matrix w)),
          rng := snd (MatrixRainSystem_reset rnd (rng w) width height (matrix w))\<rparr>)"
  by (simp add: on_resize_def Let_def case_prod_unfold)

subsection \<open>The first frame\<close>

lemma first_chunk:
  assumes dt: "0 \<le> dt" and width: "0 \<le> width"
  shows "\<exists>c. chunks (fst (CodeChunkSystem_update rnd k dt width height CodeChunkSystem_new)) = [c]"
proof -
  define s1 where "s1 = CodeChunkSystem_new\<lparr>timer := timer CodeChunkSystem_new - dt\<rparr>"
  have t1: "timer s1 \<le> 0" and ch1: "chunks s1 = []"
    using dt by (simp_all add: s1_def CodeChunkSystem_new_def)
  define dir :: int where "dir = (if rnd (k + 1) > 0.5 then 1 else - 1)"
  define c0 where "c0 = fst (CodeChunk_new rnd (snd (randomSnippet rnd (k + 2))) width height
      (fst (randomSnippet rnd (k + 2))) dir)"
  define k2 where "k2 = snd (CodeChunk_new rnd (snd (randomSnippet rnd (k + 2))) width height
      (fst (randomSnippet rnd (k + 2))) dir)"
  have spawn: "chunks (fst (CodeChunkSystem_spawn rnd k width height s1)) = [c0]"
    "snd (CodeChunkSystem_spawn rnd k width height s1) = k2"
    by (simp_all add: CodeChunkSystem_spawn_def Let_def case_prod_unfold ch1 c0_def k2_def dir_def)
  define c1 where "c1 = fst (CodeChunk_update rnd k2 dt c0)"
  have adv: "chunks (fst (CodeChunkSystem_advance rnd k dt width height CodeChunkSystem_new)) = [c1]"
    unfolding CodeChunkSystem_advance_def Let_def s1_def [symmetric]
    using t1 by (simp add: case_prod_unfold Let_def spawn c1_def)
  have c0: "alpha c0 = 0" "state c0 = fadeIn" "chunk_x c0 = - 300 \<or> chunk_x c0 = width + 300"
    by (simp_all add: c0_def CodeChunk_new_def)
  have alive: "\<not> isDead width c1"
  proof (cases "dt = 0")
    case True
    then have "alpha c1 = 0" "chunk_x c1 = chunk_x c0"
      using c0(1,2) by (simp_all add: c1_def CodeChunk_update_def Let_def)
    with c0(3) width show ?thesis
      by (auto simp: isDead_def)
  next
    case False
    with dt have "0 < dt"
      by simp
    then have "0 < alpha c1"
      using c0(1,2) by (simp add: c1_def CodeChunk_update_def Let_def)
    then show ?thesis
      by (simp add: isDead_def)
  qed
  show ?thesis
    using adv alive by (simp add: chunks_CodeChunkSystem_update)
qed

lemma first_traffic:
  assumes inv: "core_inv w" and rnd: "valid_random rnd" and dt: "0 \<le> dt"
    and timer: "normalTrafficTimer (network w) = 0" and none: "packets (network w) = []"
    and empty: "packet_heap w = []"
  shows "\<exists>w' p1 p2 rt tg. NodeNetworkSystem_update rnd dt w = Inr w' \<and> core_inv w'
     \<and> packet_heap w' = [p1, p2]
     \<and> pkt_link p1 = \<lparr>link_from = Some rt, link_to = Some tg\<rparr>
     \<and> pkt_link p2 = \<lparr>link_from = Some tg, link_to = Some rt\<rparr>
     \<and> pkt_t p1 = pkt_speed p1 * dt / 1000 \<and> pkt_t p2 = pkt_speed p2 * dt / 1000
     \<and> node_id (node_heap w' ! rt) = ''router''
     \<and> node_id (node_heap w' ! tg) \<noteq> ''router'' \<and> node_id (node_heap w' ! tg) \<noteq> ''hacker''
     \<and> packets (network w') = filter (\<lambda>r. pkt_t (packet_heap w' ! r) < 1) [0, 1]
     \<and> hacks w' = hacks w \<and> codeChunks w' = codeChunks w"
proof -
  define w1 where "w1 = w\<lparr>node_heap := update_nodes dt (nodes (network w)) (node_heap w)\<rparr>"
  define w2 where "w2 = set_network (\<lambda>n. n\<lparr>normalTrafficTimer := normalTrafficTimer n - dt\<rparr>) w1"
  have f2: "node_heap w2 = update_nodes dt (nodes (network w)) (node_heap w)"
    "nodes (network w2) = nodes (network w)" "packet_heap w2 = []"
    "packets (network w2) = []" "hacks w2 = hacks w" "codeChunks w2 = codeChunks w"
    "normalTrafficTimer (network w2) = - dt"
    by (simp_all add: w2_def w1_def set_network_def timer none empty)
  have ev2: "evolves w w2"
    by (simp add: evolves_def w2_def w1_def set_network_def update_nodes_kept
        packet_advanced_refl)
  have lay2: "layout_ok w2"
    using layout_ok_evolves [OF ev2 f2(2)] inv by (simp add: core_inv_def)
  obtain rt tg where rt: "find_node w2 ''router'' = Some rt"
    and tg: "node_id (node_heap w2 ! tg) \<noteq> ''router''" "node_id (node_heap w2 ! tg) \<noteq> ''hacker''"
    and eq: "normalTraffic rnd w2
       = Inr (w2\<lparr>rng := rng w2 + 4,
               packet_heap := packet_heap w2 @
                 [\<lparr>pkt_link = \<lparr>link_from = Some rt, link_to = Some tg\<rparr>, pkt_t = 0,
                   pkt_speed = 120 + rnd (rng w2 + 2) * 120, pkt_color = ''#00ff88''\<rparr>,
                  \<lparr>pkt_link = \<lparr>link_from = Some tg, link_to = Some rt\<rparr>, pkt_t = 0,
                   pkt_speed = 120 + rnd (rng w2 + 3) * 120, pkt_color = ''#00ff88''\<rparr>],
               network := (network w2)
                 \<lparr>normalTrafficTimer := 0.3 + rnd (rng w2) * 0.7,
                  packets := packets (network w2)
                    @ [length (packet_heap w2), length (packet_heap w2) + 1]\<rparr>\<rparr>)"
    using normalTraffic_eq [OF lay2 rnd] by blast
  have rtid: "node_id (node_heap w2 ! rt) = ''router''"
    using rt by (auto simp: find_node_def find_Some_iff)
  define p1 where "p1 = Packet_update dt
      \<lparr>pkt_link = \<lparr>link_from = Some rt, link_to = Some tg\<rparr>, pkt_t = 0,
        pkt_speed = 120 + rnd (rng w2 + 2) * 120, pkt_color = ''#00ff88''\<rparr>"
  define p2 where "p2 = Packet_update dt
      \<lparr>pkt_link = \<lparr>link_from = Some tg, link_to = Some rt\<rparr>, pkt_t = 0,
        pkt_speed = 120 + rnd (rng w2 + 3) * 120, pkt_color = ''#00ff88''\<rparr>"
  define w5 where "w5 = w2\<lparr>rng := rng w2 + 4, packet_heap := [p1, p2],
      network := (network w2)\<lparr>normalTrafficTimer := 0.3 + rnd (rng w2) * 0.7,
        packets := filter (\<lambda>r. \<not> Packet_isDone ([p1, p2] ! r)) [0, 1]\<rparr>\<rparr>"
  have res: "NodeNetworkSystem_update rnd dt w = Inr w5"
    unfolding NodeNetworkSystem_update_def Let_def w1_def [symmetric] w2_def [symmetric]
    using dt
    by (simp add: f2 eq update_packets_def set_network_def w5_def p1_def p2_def)
  have inv5: "core_inv w5"
    using NodeNetworkSystem_update_inv [OF inv rnd dt] res by auto
  have "packets (network w5) = filter (\<lambda>r. pkt_t (packet_heap w5 ! r) < 1) [0, 1]"
    by (simp add: w5_def Packet_isDone_def not_le)
  moreover have "pkt_t p1 = pkt_speed p1 * dt / 1000" "pkt_t p2 = pkt_speed p2 * dt / 1000"
    "pkt_link p1 = \<lparr>link_from = Some rt, link_to = Some tg\<rparr>"
    "pkt_link p2 = \<lparr>link_from = Some tg, link_to = Some rt\<rparr>"
    by (simp_all add: p1_def p2_def Packet_update_def)
  moreover have "packet_heap w5 = [p1, p2]" "node_heap w5 = node_heap w2" "hacks w5 = hacks w"
    "codeChunks w5 = codeChunks w"
    by (simp_all add: w5_def f2)
  ultimately show ?thesis
    using res inv5 rtid tg by (intro exI [of _ w5] exI [of _ p1] exI [of _ p2] exI [of _ rt]
        exI [of _ tg]) simp
qed

lemma first_hack:
  assumes inv: "core_inv w" and rnd: "valid_random rnd" and dt: "0 \<le> dt"
    and new: "hacks w = HackSystem_new"
  shows "\<exists>w' e. HackSystem_update rnd dt w = Inr w' \<and> events (hacks w') = [e]
     \<and> (he_state e = prepare \<or> he_state e = launch) \<and> he_packet e = None
     \<and> packet_heap w' = packet_heap w \<and> network w' = network w \<and> codeChunks w' = codeChunks w
     \<and> (\<forall>r. node_id (node_heap w' ! r) = node_id (node_heap w ! r))"
proof -
  define w1 where "w1 = set_hacks (\<lambda>s. s\<lparr>cooldown := cooldown s - dt\<rparr>) w"
  define w1a where "w1a = set_hacks (\<lambda>s. s\<lparr>cooldown := 5 + rnd (rng w1) * 10\<rparr>)
      (w1\<lparr>rng := rng w1 + 1\<rparr>)"
  have f1: "node_heap w1a = node_heap w" "packet_heap w1a = packet_heap w"
    "network w1a = network w" "codeChunks w1a = codeChunks w" "events (hacks w1a) = []"
    "cooldown (hacks w1) \<le> 0"
    using dt by (simp_all add: w1a_def w1_def set_hacks_def new HackSystem_new_def)
  have lay1: "layout_ok w1a"
    using inv by (simp add: core_inv_def layout_ok_def f1)
  have c1: "core_inv w1a"
    using inv core_inv_cong [of w1a w] by (simp add: f1)
  define e where "e = fst (HackEvent_new rnd w1a)"
  have e: "event_ok w1a e" "he_state e = prepare"
    "snd (HackEvent_new rnd w1a) = w1a\<lparr>rng := rng w1a + 1\<rparr>"
    using HackEvent_new_ok [OF lay1 rnd] by (simp_all add: e_def)
  define w2 where "w2 = set_hacks (\<lambda>s. s\<lparr>events := events s @ [e]\<rparr>) (w1a\<lparr>rng := rng w1a + 1\<rparr>)"
  have spawn: "HackSystem_spawn rnd w1 = w2"
    unfolding HackSystem_spawn_def Let_def w1a_def [symmetric]
    by (simp add: case_prod_unfold e(3) w2_def e_def)
  have f2: "node_heap w2 = node_heap w" "packet_heap w2 = packet_heap w"
    "network w2 = network w" "codeChunks w2 = codeChunks w" "events (hacks w2) = [e]"
    by (simp_all add: w2_def set_hacks_def f1)
  obtain h where h: "he_hacker e = Some h" "h < length (node_heap w)"
    using e(1) by (auto simp: event_ok_def f1 split: option.splits)
  have np: "he_packet e = None"
    using e(1,2) by (auto simp: event_ok_def split: option.splits)
  define e' where "e' = (if he_timer e + dt > 0.5
      then e\<lparr>he_timer := he_timer e + dt, he_state := launch, he_timer := 0\<rparr>
      else e\<lparr>he_timer := he_timer e + dt\<rparr>)"
  have up: "HackEvent_update dt e w2 = Inr (e', set_hackedAlpha h 1 w2)"
    using e(2) h(1) by (simp add: HackEvent_update_def Let_def e'_def)
  have e': "he_state e' = prepare \<or> he_state e' = launch" "he_packet e' = None"
    "\<not> HackEvent_isDone e'"
    using e(2) np by (simp_all add: e'_def HackEvent_isDone_def)
  define w4 where "w4 = set_hacks (\<lambda>s. s\<lparr>events := [e']\<rparr>) (set_hackedAlpha h 1 w2)"
  have res: "HackSystem_update rnd dt w = Inr w4"
    unfolding HackSystem_update_def Let_def w1_def [symmetric]
    using f1(6) by (simp add: spawn f2 up e'(3) w4_def)
  have ids: "\<forall>r. node_id (node_heap w4 ! r) = node_id (node_heap w ! r)"
  proof
    fix r
    show "node_id (node_heap w4 ! r) = node_id (node_heap w ! r)"
      using h(2) by (cases "r = h") (simp_all add: w4_def set_hacks_def f2)
  qed
  have "events (hacks w4) = [e']" "packet_heap w4 = packet_heap w" "network w4 = network w"
    "codeChunks w4 = codeChunks w"
    by (simp_all add: w4_def set_hacks_def set_hackedAlpha_def f2)
  with res e' ids show ?thesis
    by (intro exI [of _ w4] exI [of _ e']) simp
qed

lemma core_inv_start: "core_inv (start rnd width height)"
  using world_inv_start [of rnd width height] by (simp add: world_inv_iff)

section \<open>The properties of the specification\<close>

subsection \<open>C1: the state machine of a hack event\<close>

text \<open>
  Claim C1. A hack event is constructed in \<^verbatim>\<open>prepare\<close> with its timer at 0, and one
  call of \<^verbatim>\<open>HackEvent.update(dt)\<close> does the following. In \<^verbatim>\<open>prepare\<close> it sets the
  highlight of the hacker node to 1, and when the timer plus \<open>dt\<close> exceeds 0.5 it moves to
  \<^verbatim>\<open>launch\<close> with the timer reset. In \<^verbatim>\<open>launch\<close> it constructs one packet from the
  hacker to the target chosen by the constructor, of color \<^verbatim>\<open>#ff0066\<close> and speed 260,
  appends it to the active collection of the network, keeps it as its packet and moves
  to \<^verbatim>\<open>inFlight\<close>. In \<^verbatim>\<open>inFlight\<close> it moves to \<^verbatim>\<open>impact\<close> exactly when the \<open>t\<close> of its
  packet is at least 1, and then sets the highlight of the target to 1 and resets the
  timer. In \<^verbatim>\<open>impact\<close> it moves to \<^verbatim>\<open>done\<close> when the timer plus \<open>dt\<close> exceeds 1.5.
  Every event of every state the program reaches has a hacker and a target that are
  live nodes and, once launched, a live packet, so that these cases cover it.
\<close>

theorem HackEvent_state_machine:
  "he_state (fst (HackEvent_new rnd w)) = prepare
   \<and> he_timer (fst (HackEvent_new rnd w)) = 0
   \<and> (he_state e = prepare \<and> he_hacker e = Some h \<and> h < length (node_heap w) \<longrightarrow>
        HackEvent_update dt e w
          = (if he_timer e + dt > 0.5
             then Inr (e\<lparr>he_timer := 0, he_state := launch\<rparr>, set_hackedAlpha h 1 w)
             else Inr (e\<lparr>he_timer := he_timer e + dt\<rparr>, set_hackedAlpha h 1 w))
        \<and> hackedAlpha (node_heap (set_hackedAlpha h 1 w) ! h) = 1)
   \<and> (he_state e = launch \<longrightarrow>
        HackEvent_update dt e w
          = Inr (e\<lparr>he_timer := he_timer e + dt, he_packet := Some (length (packet_heap w)),
                  he_state := inFlight\<rparr>,
                 w\<lparr>packet_heap := packet_heap w @
                      [\<lparr>pkt_link = \<lparr>link_from = he_hacker e, link_to = he_target e\<rparr>,
                        pkt_t = 0, pkt_speed = 260, pkt_color = ''#ff0066''\<rparr>],
                   network := (network w)
                     \<lparr>packets := packets (network w) @ [length (packet_heap w)]\<rparr>\<rparr>))
   \<and> (he_state e = inFlight \<and> he_packet e = Some p \<and> he_target e = Some t
        \<and> t < length (node_heap w) \<longrightarrow>
        HackEvent_update dt e w
          = (if pkt_t (packet_heap w ! p) \<ge> 1
             then Inr (e\<lparr>he_timer := 0, he_state := impact\<rparr>, set_hackedAlpha t 1 w)
             else Inr (e\<lparr>he_timer := he_timer e + dt\<rparr>, w))
        \<and> hackedAlpha (node_heap (set_hackedAlpha t 1 w) ! t) = 1)
   \<and> (he_state e = impact \<longrightarrow>
        HackEvent_update dt e w
          = (if he_timer e + dt > 1.5
             then Inr (e\<lparr>he_timer := he_timer e + dt, he_state := hack_done\<rparr>, w)
             else Inr (e\<lparr>he_timer := he_timer e + dt\<rparr>, w)))
   \<and> (valid_random rnd \<and> reachable rnd v \<and> x \<in> set (events (hacks v)) \<longrightarrow> event_ok v x)"
proof (intro conjI impI)
  show "he_state (fst (HackEvent_new rnd w)) = prepare" "he_timer (fst (HackEvent_new rnd w)) = 0"
    by (simp_all add: HackEvent_new_def Let_def)
next
  assume a: "he_state e = prepare \<and> he_hacker e = Some h \<and> h < length (node_heap w)"
  then show "HackEvent_update dt e w
          = (if he_timer e + dt > 0.5
             then Inr (e\<lparr>he_timer := 0, he_state := launch\<rparr>, set_hackedAlpha h 1 w)
             else Inr (e\<lparr>he_timer := he_timer e + dt\<rparr>, set_hackedAlpha h 1 w))"
    by (simp add: HackEvent_update_def Let_def)
  from a show "hackedAlpha (node_heap (set_hackedAlpha h 1 w) ! h) = 1"
    by simp
next
  assume "he_state e = launch"
  then show "HackEvent_update dt e w
          = Inr (e\<lparr>he_timer := he_timer e + dt, he_packet := Some (length (packet_heap w)),
                  he_state := inFlight\<rparr>,
                 w\<lparr>packet_heap := packet_heap w @
                      [\<lparr>pkt_link = \<lparr>link_from = he_hacker e, link_to = he_target e\<rparr>,
                        pkt_t = 0, pkt_speed = 260, pkt_color = ''#ff0066''\<rparr>],
                   network := (network w)
                     \<lparr>packets := packets (network w) @ [length (packet_heap w)]\<rparr>\<rparr>)"
    by (simp add: HackEvent_update_def Let_def new_Packet_def Packet_new_def set_network_def)
next
  assume a: "he_state e = inFlight \<and> he_packet e = Some p \<and> he_target e = Some t
        \<and> t < length (node_heap w)"
  then show "HackEvent_update dt e w
          = (if pkt_t (packet_heap w ! p) \<ge> 1
             then Inr (e\<lparr>he_timer := 0, he_state := impact\<rparr>, set_hackedAlpha t 1 w)
             else Inr (e\<lparr>he_timer := he_timer e + dt\<rparr>, w))"
    by (simp add: HackEvent_update_def Let_def Packet_isDone_def)
  from a show "hackedAlpha (node_heap (set_hackedAlpha t 1 w) ! t) = 1"
    by simp
next
  assume "he_state e = impact"
  then show "HackEvent_update dt e w
          = (if he_timer e + dt > 1.5
             then Inr (e\<lparr>he_timer := he_timer e + dt, he_state := hack_done\<rparr>, w)
             else Inr (e\<lparr>he_timer := he_timer e + dt\<rparr>, w))"
    by (simp add: HackEvent_update_def Let_def)
next
  assume a: "valid_random rnd \<and> reachable rnd v \<and> x \<in> set (events (hacks v))"
  then have "world_inv v"
    using reachable_inv by blast
  with a show "event_ok v x"
    by (simp add: world_inv_def)
qed


theorem HackEvent_state_machine_witness:
  "HackEvent_update 1 event0 (start rnd_half 32 32)
     = Inr (event0\<lparr>he_timer := 0, he_state := launch\<rparr>,
            set_hackedAlpha 0 1 (start rnd_half 32 32))
   \<and> HackEvent_update 5 (hd (events (hacks world1))) world1
     = Inr ((hd (events (hacks world1)))\<lparr>he_timer := 5, he_packet := Some 2,
              he_state := inFlight\<rparr>,
            world1\<lparr>packet_heap := packet_heap world1 @
                 [\<lparr>pkt_link = \<lparr>link_from = Some 0, link_to = Some 5\<rparr>, pkt_t = 0,
                   pkt_speed = 260, pkt_color = ''#ff0066''\<rparr>],
               network := (network world1)\<lparr>packets := [0, 1, 2]\<rparr>\<rparr>)
   \<and> HackEvent_update 4 (hd (events (hacks world2))) world2
     = Inr ((hd (events (hacks world2)))\<lparr>he_timer := 9\<rparr>, world2)
   \<and> HackEvent_update 4 (hd (events (hacks world2))) world3
     = Inr ((hd (events (hacks world2)))\<lparr>he_timer := 0, he_state := impact\<rparr>,
            set_hackedAlpha 5 1 world3)
   \<and> HackEvent_update 2 (hd (events (hacks world3))) world3
     = Inr ((hd (events (hacks world3)))\<lparr>he_timer := 2, he_state := hack_done\<rparr>, world3)
   \<and> event_ok (draw world2) (hd (events (hacks world2)))"
proof -
  have prep: "he_state event0 = prepare \<and> he_hacker event0 = Some 0
      \<and> 0 < length (node_heap (start rnd_half 32 32))"
    by (simp add: event0_def start_eq layout_nodes_def Let_def)
  have lau: "he_state (hd (events (hacks world1))) = launch"
    by (simp add: world1_def)
  have fly: "he_state (hd (events (hacks world2))) = inFlight
      \<and> he_packet (hd (events (hacks world2))) = Some 4
      \<and> he_target (hd (events (hacks world2))) = Some 5 \<and> 5 < length (node_heap world2)
      \<and> 5 < length (node_heap world3)"
    by (simp add: world2_def world3_def)
  have imp: "he_state (hd (events (hacks world3))) = impact"
    by (simp add: world3_def)
  have mem: "hd (events (hacks world2)) \<in> set (events (hacks (draw world2)))"
    by (simp add: draw_def world2_def)
  have c1: "HackEvent_update 1 event0 (start rnd_half 32 32)
     = Inr (event0\<lparr>he_timer := 0, he_state := launch\<rparr>,
            set_hackedAlpha 0 1 (start rnd_half 32 32))"
    using HackEvent_state_machine [where e = event0 and w = "start rnd_half 32 32" and dt = 1
        and h = 0] prep
    by (simp add: event0_def)
  have c2: "HackEvent_update 5 (hd (events (hacks world1))) world1
     = Inr ((hd (events (hacks world1)))\<lparr>he_timer := 5, he_packet := Some 2,
              he_state := inFlight\<rparr>,
            world1\<lparr>packet_heap := packet_heap world1 @
                 [\<lparr>pkt_link = \<lparr>link_from = Some 0, link_to = Some 5\<rparr>, pkt_t = 0,
                   pkt_speed = 260, pkt_color = ''#ff0066''\<rparr>],
               network := (network world1)\<lparr>packets := [0, 1, 2]\<rparr>\<rparr>)"
    using HackEvent_state_machine [where e = "hd (events (hacks world1))" and w = world1
        and dt = 5] lau
    by (simp add: world1_def)
  have c3: "HackEvent_update 4 (hd (events (hacks world2))) world2
     = Inr ((hd (events (hacks world2)))\<lparr>he_timer := 9\<rparr>, world2)"
    using HackEvent_state_machine [where e = "hd (events (hacks world2))" and w = world2
        and dt = 4 and p = 4 and t = 5] fly
    by (simp add: world2_def)
  have c4: "HackEvent_update 4 (hd (events (hacks world2))) world3
     = Inr ((hd (events (hacks world2)))\<lparr>he_timer := 0, he_state := impact\<rparr>,
            set_hackedAlpha 5 1 world3)"
    using HackEvent_state_machine [where e = "hd (events (hacks world2))" and w = world3
        and dt = 4 and p = 4 and t = 5] fly
    by (simp add: world2_def world3_def)
  have c5: "HackEvent_update 2 (hd (events (hacks world3))) world3
     = Inr ((hd (events (hacks world3)))\<lparr>he_timer := 2, he_state := hack_done\<rparr>, world3)"
    using HackEvent_state_machine [where e = "hd (events (hacks world3))" and w = world3
        and dt = 2] imp
    by (simp add: world3_def)
  have c6: "event_ok (draw world2) (hd (events (hacks world2)))"
    using HackEvent_state_machine [where rnd = rnd_half and v = "draw world2"
        and x = "hd (events (hacks world2))"] mem valid_random_half reachable_world2
    by simp
  from c1 c2 c3 c4 c5 c6 show ?thesis
    by (intro conjI)
qed

subsection \<open>C2: the progress of a packet\<close>

text \<open>
  Claim C2. \<^verbatim>\<open>Packet.update(dt)\<close> with \<open>dt \<ge> 0\<close> does not decrease \<open>t\<close> when the speed
  of the packet is not negative. After \<^verbatim>\<open>NodeNetworkSystem.update\<close> no packet of the
  active collection has \<open>t \<ge> 1\<close>: a packet is removed in the very call in which its
  \<open>t\<close> reaches 1. In every state the program reaches, every packet ever constructed has
  a speed of at least 120 and \<open>t \<ge> 0\<close>, and every packet of the active collection, which
  is what is drawn, has \<open>t\<close> in \<open>[0, 1)\<close>; and over a frame with \<open>dt \<ge> 0\<close> the \<open>t\<close> of
  no packet decreases.
\<close>

theorem packet_progress:
  "(0 \<le> dt \<and> 0 \<le> pkt_speed p \<longrightarrow> pkt_t p \<le> pkt_t (Packet_update dt p))
   \<and> (NodeNetworkSystem_update rnd dt w = Inr w' \<longrightarrow>
        (\<forall>r \<in> set (packets (network w')). pkt_t (packet_heap w' ! r) < 1))
   \<and> (valid_random rnd \<and> reachable rnd v \<longrightarrow>
        (\<forall>q \<in> set (packet_heap v). 0 \<le> pkt_t q \<and> 120 \<le> pkt_speed q)
        \<and> (\<forall>r \<in> set (packets (network v)). r < length (packet_heap v)
             \<and> 0 \<le> pkt_t (packet_heap v ! r) \<and> pkt_t (packet_heap v ! r) < 1))
   \<and> (valid_random rnd \<and> reachable rnd v \<and> 0 \<le> dt \<and> update rnd dt v = Inr v'
        \<and> i < length (packet_heap v) \<longrightarrow>
        pkt_t (packet_heap v ! i) \<le> pkt_t (packet_heap v' ! i))"
proof (intro conjI impI)
  assume "0 \<le> dt \<and> 0 \<le> pkt_speed p"
  then show "pkt_t p \<le> pkt_t (Packet_update dt p)"
    by (simp add: Packet_update_def)
next
  assume "NodeNetworkSystem_update rnd dt w = Inr w'"
  then show "\<forall>r \<in> set (packets (network w')). pkt_t (packet_heap w' ! r) < 1"
    by (rule NodeNetworkSystem_update_active)
next
  assume a: "valid_random rnd \<and> reachable rnd v"
  then show "\<forall>q \<in> set (packet_heap v). 0 \<le> pkt_t q \<and> 120 \<le> pkt_speed q"
    "\<forall>r \<in> set (packets (network v)). r < length (packet_heap v)
             \<and> 0 \<le> pkt_t (packet_heap v ! r) \<and> pkt_t (packet_heap v ! r) < 1"
    using reachable_packets [of rnd v] by blast+
next
  assume "valid_random rnd \<and> reachable rnd v \<and> 0 \<le> dt \<and> update rnd dt v = Inr v'
        \<and> i < length (packet_heap v)"
  then show "pkt_t (packet_heap v ! i) \<le> pkt_t (packet_heap v' ! i)"
    using update_packet_monotone by blast
qed


theorem packet_progress_witness:
  "pkt_t (packet_heap world1 ! 0) \<le> pkt_t (Packet_update 5 (packet_heap world1 ! 0))
   \<and> NodeNetworkSystem_update rnd_half 5 (draw world1)
     = Inr ((draw world1)\<lparr>node_heap := node_heap world2,
              packet_heap := take 4 (packet_heap world2),
              network := (network world2)\<lparr>packets := [2, 3]\<rparr>, rng := 33\<rparr>)
   \<and> pkt_t (take 4 (packet_heap world2) ! 0) = 27 / 25
   \<and> pkt_t (take 4 (packet_heap world2) ! 2) < 1
   \<and> pkt_t (take 4 (packet_heap world2) ! 3) < 1
   \<and> 0 \<le> pkt_t (packet_heap (draw world2) ! 4) \<and> pkt_t (packet_heap (draw world2) ! 4) < 1
   \<and> 120 \<le> pkt_speed (packet_heap (draw world2) ! 0)
   \<and> pkt_t (packet_heap (draw world1) ! 0) \<le> pkt_t (packet_heap world2 ! 0)"
proof -
  have nn: "NodeNetworkSystem_update rnd_half 5 (draw world1)
     = Inr ((draw world1)\<lparr>node_heap := node_heap world2,
              packet_heap := take 4 (packet_heap world2),
              network := (network world2)\<lparr>packets := [2, 3]\<rparr>, rng := 33\<rparr>)"
    by (simp add: draw_defs world1_def world2_def update_defs)
  have sp: "0 \<le> (5 :: real) \<and> 0 \<le> pkt_speed (packet_heap world1 ! 0)"
    by (simp add: world1_def)
  have mem: "packet_heap (draw world2) ! 0 \<in> set (packet_heap (draw world2))"
    "4 \<in> set (packets (network (draw world2)))"
    "(0 :: nat) < length (packet_heap (draw world1))"
    by (simp_all add: draw_def world1_def world2_def)
  show ?thesis
    using packet_progress [where dt = 5 and p = "packet_heap world1 ! 0" and rnd = rnd_half
        and w = "draw world1"
        and w' = "(draw world1)\<lparr>node_heap := node_heap world2,
              packet_heap := take 4 (packet_heap world2),
              network := (network world2)\<lparr>packets := [2, 3]\<rparr>, rng := 33\<rparr>"
        and v = "draw world2" and v' = world3 and i = 0]
      packet_progress [where dt = 5 and p = "packet_heap world1 ! 0" and rnd = rnd_half
        and w = "draw world1"
        and w' = "(draw world1)\<lparr>node_heap := node_heap world2,
              packet_heap := take 4 (packet_heap world2),
              network := (network world2)\<lparr>packets := [2, 3]\<rparr>, rng := 33\<rparr>"
        and v = "draw world1" and v' = world2 and i = 0]
      nn sp mem valid_random_half reachable_world1 reachable_world2 frame2
    by (simp add: world2_def)
qed

subsection \<open>C3: sendPacket\<close>

text \<open>
  Claim C3. When both identifiers name a node of the network,
  \<^verbatim>\<open>sendPacket(fromId, toId, color, speed)\<close> allocates one packet with \<open>t = 0\<close>, on a
  fresh link between the two nodes found, appends it to the active collection and
  changes nothing else. When one of the identifiers names no node it changes nothing at
  all. It raises no error in either case: the model of \<^verbatim>\<open>sendPacket\<close> is a total
  function that returns a state.
\<close>

theorem sendPacket_spec:
  "(find_node w fromId = Some a \<and> find_node w toId = Some b \<longrightarrow>
      sendPacket fromId toId color speed w
      = w\<lparr>packet_heap := packet_heap w @
              [\<lparr>pkt_link = \<lparr>link_from = Some a, link_to = Some b\<rparr>, pkt_t = 0, pkt_speed = speed,
                pkt_color = color\<rparr>],
           network := (network w)\<lparr>packets := packets (network w) @ [length (packet_heap w)]\<rparr>\<rparr>)
   \<and> (find_node w fromId = None \<or> find_node w toId = None \<longrightarrow>
        sendPacket fromId toId color speed w = w)"
  using sendPacket_found [of w fromId a toId b color speed]
    sendPacket_missing [of w fromId toId color speed]
  by blast

theorem sendPacket_spec_witness:
  "packet_heap (sendPacket ''router'' ''desktop1'' ''#00ff88'' 180 (start rnd_half 1024 768))
     = [\<lparr>pkt_link = \<lparr>link_from = Some 4, link_to = Some 2\<rparr>, pkt_t = 0, pkt_speed = 180,
         pkt_color = ''#00ff88''\<rparr>]
   \<and> packets (network (sendPacket ''router'' ''desktop1'' ''#00ff88'' 180
        (start rnd_half 1024 768))) = [0]
   \<and> sendPacket ''router'' ''nowhere'' ''#00ff88'' 180 (start rnd_half 1024 768)
     = start rnd_half 1024 768"
  using sendPacket_spec [of "start rnd_half 1024 768" "''router''" 4 "''desktop1''" 2
      "''#00ff88''" 180]
    sendPacket_spec [of "start rnd_half 1024 768" "''router''" 4 "''nowhere''" 0
      "''#00ff88''" 180]
  by (simp add: find_node_start) (simp add: start_eq)

subsection \<open>C4: the highlight of a node\<close>

text \<open>
  Claim C4. \<^verbatim>\<open>Node.update(dt)\<close> lowers a positive highlight by \<open>0.2 * dt\<close> and floors
  it at 0, and leaves a highlight that is not positive as it is. The one other write after
  the constructor is in \<^verbatim>\<open>HackEvent.update\<close>, which leaves the highlight of a node as
  it is or sets it to exactly 1. So in every state the program reaches, through frames
  with \<open>dt \<ge> 0\<close> and resize events, the highlight of every node ever constructed is
  within \<open>[0, 1]\<close>.
\<close>

theorem highlight_range:
  "hackedAlpha (Node_update dt n)
     = (if 0 < hackedAlpha n then max 0 (hackedAlpha n - dt * 0.2) else hackedAlpha n)
   \<and> (HackEvent_update dt' e w = Inr (e', w') \<and> r < length (node_heap w) \<longrightarrow>
        hackedAlpha (node_heap w' ! r) = hackedAlpha (node_heap w ! r)
        \<or> hackedAlpha (node_heap w' ! r) = 1)
   \<and> (valid_random rnd \<and> reachable rnd v \<and> m \<in> set (node_heap v) \<longrightarrow>
        0 \<le> hackedAlpha m \<and> hackedAlpha m \<le> 1)"
proof (intro conjI impI)
  show "hackedAlpha (Node_update dt n)
     = (if 0 < hackedAlpha n then max 0 (hackedAlpha n - dt * 0.2) else hackedAlpha n)"
    by (rule Node_update_alpha)
next
  assume "HackEvent_update dt' e w = Inr (e', w') \<and> r < length (node_heap w)"
  then show "hackedAlpha (node_heap w' ! r) = hackedAlpha (node_heap w ! r)
        \<or> hackedAlpha (node_heap w' ! r) = 1"
    using HackEvent_update_alpha by blast
next
  assume a: "valid_random rnd \<and> reachable rnd v \<and> m \<in> set (node_heap v)"
  then have "world_inv v"
    using reachable_inv by blast
  with a show "0 \<le> hackedAlpha m" "hackedAlpha m \<le> 1"
    by (simp_all add: world_inv_def nodes_ok_def)
qed

theorem highlight_range_witness:
  "hackedAlpha (Node_update 1 (node_heap world1 ! 0)) = 0.8
   \<and> hackedAlpha (node_heap (set_hackedAlpha 0 1 (start rnd_half 32 32)) ! 0) = 1
   \<and> 0 \<le> hackedAlpha (node_heap (draw world3) ! 5)
   \<and> hackedAlpha (node_heap (draw world3) ! 5) \<le> 1"
proof -
  have step: "HackEvent_update (1 / 60) event0 (start rnd_half 32 32)
      = Inr (event0\<lparr>he_timer := 1 / 60\<rparr>, set_hackedAlpha 0 1 (start rnd_half 32 32))"
    by (simp add: HackEvent_update_def event0_def Let_def)
  have len: "0 < length (node_heap (start rnd_half 32 32))"
    by (simp add: start_eq layout_nodes_def Let_def)
  have mem: "node_heap (draw world3) ! 5 \<in> set (node_heap (draw world3))"
    by (simp add: draw_def world3_def)
  show ?thesis
    using highlight_range [where dt = 1 and n = "node_heap world1 ! 0" and dt' = "1 / 60"
        and e = event0 and w = "start rnd_half 32 32" and e' = "event0\<lparr>he_timer := 1 / 60\<rparr>"
        and w' = "set_hackedAlpha 0 1 (start rnd_half 32 32)" and r = 0 and rnd = rnd_half
        and v = "draw world3" and m = "node_heap (draw world3) ! 5"]
      step len mem valid_random_half reachable_world3
    by (simp add: world1_def start_eq layout_nodes_def Node_new_def Let_def)
qed

subsection \<open>C5: when a code chunk is removed\<close>

text \<open>
  Claim C5. Of the chunks that \<^verbatim>\<open>CodeChunkSystem.update\<close> has advanced, the ones it
  removes from the active collection are exactly those whose opacity is at most 0 and
  whose \<open>x\<close> is outside the surface by more than the margin of 400 (\<open>x < -400\<close> or
  \<open>x > width + 400\<close>); the others are kept, in their order. So a chunk with positive
  opacity is never removed, and neither is a chunk with \<open>x\<close> in \<open>[-400, width + 400]\<close>.
\<close>

theorem chunk_removed_iff:
  "c \<in> set (chunks (fst (CodeChunkSystem_advance rnd k dt width height s))) \<Longrightarrow>
     (c \<notin> set (chunks (fst (CodeChunkSystem_update rnd k dt width height s)))
        \<longleftrightarrow> alpha c \<le> 0 \<and> (chunk_x c < - 400 \<or> chunk_x c > width + 400))
     \<and> chunks (fst (CodeChunkSystem_update rnd k dt width height s))
       = filter (\<lambda>c. \<not> (alpha c \<le> 0 \<and> (chunk_x c < - 400 \<or> chunk_x c > width + 400)))
           (chunks (fst (CodeChunkSystem_advance rnd k dt width height s)))"
  by (simp add: chunks_CodeChunkSystem_update isDead_iff)

theorem chunk_removed_iff_witness:
  "chunk_gone\<lparr>chunk_x := 1520, alpha := - 0.2\<rparr>
     \<in> set (chunks (fst (CodeChunkSystem_advance rnd_half 0 1 1024 768
          \<lparr>chunks = [chunk_gone], timer = 3\<rparr>)))
   \<and> chunk_gone\<lparr>chunk_x := 1520, alpha := - 0.2\<rparr>
     \<notin> set (chunks (fst (CodeChunkSystem_update rnd_half 0 1 1024 768
          \<lparr>chunks = [chunk_gone], timer = 3\<rparr>)))
   \<and> chunks (fst (CodeChunkSystem_update rnd_half 0 1 1024 768
          \<lparr>chunks = [chunk_gone], timer = 3\<rparr>)) = []"
proof -
  have adv: "chunks (fst (CodeChunkSystem_advance rnd_half 0 1 1024 768
      \<lparr>chunks = [chunk_gone], timer = 3\<rparr>)) = [chunk_gone\<lparr>chunk_x := 1520, alpha := - 0.2\<rparr>]"
    by (simp add: CodeChunkSystem_advance_def CodeChunk_update_def chunk_gone_def unfolds)
  then have mem: "chunk_gone\<lparr>chunk_x := 1520, alpha := - 0.2\<rparr>
     \<in> set (chunks (fst (CodeChunkSystem_advance rnd_half 0 1 1024 768
          \<lparr>chunks = [chunk_gone], timer = 3\<rparr>)))"
    by simp
  show ?thesis
    using chunk_removed_iff [OF mem] adv by (simp add: chunk_gone_def)
qed

subsection \<open>C6: the opacity of a code chunk\<close>

text \<open>
  As the claim is stated, the opacity stays within \<open>[0, 1]\<close> and does not go below 0
  during \<^verbatim>\<open>fadeOut\<close>. The \<^verbatim>\<open>fadeOut\<close> branch of \<^verbatim>\<open>CodeChunk.update\<close> subtracts
  \<open>dt * 0.3\<close> and has no floor: the chunk below, constructed and updated three times
  (2, 5 and 3 seconds), fades in to 0.8, holds, and fades out to \<open>0.8 - 0.9 = -0.1\<close>.
\<close>

theorem chunk_alpha_counterexample:
  "alpha (fst (CodeChunk_updates rnd_zero 2 [2, 5, 3]
      (fst (CodeChunk_new rnd_zero 0 1024 768 (fst (randomSnippet rnd_zero 0)) 1)))) < 0"
  by (simp add: CodeChunk_new_def CodeChunk_update_def rnd_zero_def unfolds)

text \<open>
  Claim C6, amended. Each call of \<^verbatim>\<open>CodeChunk.update(dt)\<close> raises the opacity by
  \<open>0.5 * dt\<close> in \<^verbatim>\<open>fadeIn\<close>, clamped at 0.8, leaves it in \<^verbatim>\<open>hold\<close>, and lowers it by
  \<open>0.3 * dt\<close> in \<^verbatim>\<open>fadeOut\<close>, with no lower bound. So after its constructor and any
  sequence of calls of \<^verbatim>\<open>update\<close> with \<open>dt \<ge> 0\<close> the opacity of a chunk is at most 0.8,
  and it is at least 0 as long as the chunk is in \<^verbatim>\<open>fadeIn\<close> or \<^verbatim>\<open>hold\<close>.
\<close>

theorem chunk_alpha_range:
  assumes "\<forall>d \<in> set dts. 0 \<le> d"
  shows "alpha (fst (CodeChunk_update rnd k dt c))
       = (case state c of
            fadeIn \<Rightarrow> min 0.8 (alpha c + dt * 0.5)
          | hold \<Rightarrow> alpha c
          | fadeOut \<Rightarrow> alpha c - dt * 0.3)
     \<and> alpha (fst (CodeChunk_updates rnd k' dts (fst (CodeChunk_new rnd k0 width height lines dir))))
         \<le> 0.8
     \<and> (state (fst (CodeChunk_updates rnd k' dts (fst (CodeChunk_new rnd k0 width height lines dir))))
           \<noteq> fadeOut \<longrightarrow>
         0 \<le> alpha (fst (CodeChunk_updates rnd k' dts
                 (fst (CodeChunk_new rnd k0 width height lines dir)))))"
proof -
  have new: "alpha (fst (CodeChunk_new rnd k0 width height lines dir)) \<le> 0.8
     \<and> (state (fst (CodeChunk_new rnd k0 width height lines dir)) \<noteq> fadeOut
          \<longrightarrow> 0 \<le> alpha (fst (CodeChunk_new rnd k0 width height lines dir)))"
    by (simp add: CodeChunk_new_def)
  from CodeChunk_update_step [of rnd k dt c] CodeChunk_updates_alpha [OF assms new, of rnd k']
  show ?thesis
    by simp
qed

theorem chunk_alpha_range_witness:
  "alpha (fst (CodeChunk_update rnd_zero 2 1
       (fst (CodeChunk_new rnd_zero 0 1024 768 (fst (randomSnippet rnd_zero 0)) 1)))) = 0.5
   \<and> alpha (fst (CodeChunk_updates rnd_zero 2 [1, 1]
       (fst (CodeChunk_new rnd_zero 0 1024 768 (fst (randomSnippet rnd_zero 0)) 1)))) \<le> 0.8
   \<and> 0 \<le> alpha (fst (CodeChunk_updates rnd_zero 2 [1, 1]
       (fst (CodeChunk_new rnd_zero 0 1024 768 (fst (randomSnippet rnd_zero 0)) 1))))"
proof -
  have d: "\<forall>d \<in> set [1, 1 :: real]. 0 \<le> d"
    by simp
  have st: "state (fst (CodeChunk_updates rnd_zero 2 [1, 1]
       (fst (CodeChunk_new rnd_zero 0 1024 768 (fst (randomSnippet rnd_zero 0)) 1)))) = hold"
    by (simp add: CodeChunk_new_def CodeChunk_update_def rnd_zero_def unfolds)
  show ?thesis
    using chunk_alpha_range [OF d, where rnd = rnd_zero and k = 2 and dt = 1
        and c = "fst (CodeChunk_new rnd_zero 0 1024 768 (fst (randomSnippet rnd_zero 0)) 1)"
        and k' = 2 and k0 = 0 and width = 1024 and height = 768
        and lines = "fst (randomSnippet rnd_zero 0)" and dir = 1] st
    by (simp add: CodeChunk_new_def)
qed

subsection \<open>C7: the height of a rain column\<close>

text \<open>
  As the claim is stated, a column that passes \<open>height + 100\<close> is reset to a value in
  \<open>[-height, 0)\<close>. The source resets it to \<^verbatim>\<open>Math.random() * -height\<close>, and
  \<^verbatim>\<open>Math.random()\<close> may return 0: the column below, constructed and updated with the
  random source that returns 0 and a height of 100, passes the threshold (500 > 200) and
  is reset to 0, which is not below 0.
\<close>

theorem column_reset_counterexample:
  "valid_random rnd_zero
   \<and> col_y (fst (MatrixColumn_new rnd_zero 0 0 100))
       + col_speed (fst (MatrixColumn_new rnd_zero 0 0 100)) * 10 > 100 + 100
   \<and> \<not> col_y (fst (MatrixColumn_update rnd_zero 2 10 100 (fst (MatrixColumn_new rnd_zero 0 0 100))))
        < 0"
  by (simp add: valid_random_def rnd_zero_def MatrixColumn_new_def MatrixColumn_update_def)

text \<open>
  Claim C7, amended. For a height \<open>height > 0\<close> and \<open>dt \<ge> 0\<close>,
  \<^verbatim>\<open>MatrixColumn.update(dt, height)\<close> advances \<open>y\<close> by \<open>speed * dt\<close>, and when the
  result exceeds \<open>height + 100\<close> it resets \<open>y\<close> to \<^verbatim>\<open>Math.random() * -height\<close>, a value
  in \<open>(-height, 0]\<close>. So after its constructor and any number of calls of \<^verbatim>\<open>update\<close>
  with that height, the \<open>y\<close> of a column is in \<open>(-height, height + 100]\<close>.
\<close>

theorem column_y_range:
  assumes "valid_random rnd" and "0 < height" and "0 \<le> dt" and "\<forall>d \<in> set dts. 0 \<le> d"
  shows "(col_y c + col_speed c * dt \<le> height + 100 \<longrightarrow>
            col_y (fst (MatrixColumn_update rnd k dt height c)) = col_y c + col_speed c * dt)
     \<and> (col_y c + col_speed c * dt > height + 100 \<longrightarrow>
            col_y (fst (MatrixColumn_update rnd k dt height c)) = rnd k * - height
            \<and> - height < col_y (fst (MatrixColumn_update rnd k dt height c))
            \<and> col_y (fst (MatrixColumn_update rnd k dt height c)) \<le> 0)
     \<and> - height < col_y (fst (MatrixColumn_updates rnd k' dts height
                        (fst (MatrixColumn_new rnd k0 x height))))
     \<and> col_y (fst (MatrixColumn_updates rnd k' dts height (fst (MatrixColumn_new rnd k0 x height))))
         \<le> height + 100"
proof -
  have r: "0 \<le> rnd k" "rnd k < 1"
    using assms(1) by (simp_all add: valid_random_def)
  have lo: "- height < rnd k * - height"
    using r(2) assms(2) by simp
  have hi: "rnd k * - height \<le> 0"
    using r(1) assms(2) by (simp add: mult_nonneg_nonpos)
  have keep: "col_y c + col_speed c * dt \<le> height + 100 \<longrightarrow>
      col_y (fst (MatrixColumn_update rnd k dt height c)) = col_y c + col_speed c * dt"
    by (simp add: MatrixColumn_update_def Let_def)
  have wrap: "col_y c + col_speed c * dt > height + 100 \<longrightarrow>
      col_y (fst (MatrixColumn_update rnd k dt height c)) = rnd k * - height"
    by (simp add: MatrixColumn_update_def Let_def)
  have new: "50 \<le> col_speed (fst (MatrixColumn_new rnd k0 x height))
     \<and> - height < col_y (fst (MatrixColumn_new rnd k0 x height))
     \<and> col_y (fst (MatrixColumn_new rnd k0 x height)) \<le> height + 100"
    using MatrixColumn_new_range [OF assms(1,2), of k0 x] assms(2) by simp
  have run: "- height < col_y (fst (MatrixColumn_updates rnd k' dts height
                        (fst (MatrixColumn_new rnd k0 x height))))
     \<and> col_y (fst (MatrixColumn_updates rnd k' dts height (fst (MatrixColumn_new rnd k0 x height))))
         \<le> height + 100"
    using MatrixColumn_updates_range [OF assms(1,2,4) new, of k'] by blast
  show ?thesis
  proof (intro conjI impI)
    assume "col_y c + col_speed c * dt \<le> height + 100"
    with keep show "col_y (fst (MatrixColumn_update rnd k dt height c)) = col_y c + col_speed c * dt"
      by blast
  next
    assume w: "col_y c + col_speed c * dt > height + 100"
    with wrap show eq: "col_y (fst (MatrixColumn_update rnd k dt height c)) = rnd k * - height"
      by blast
    show "- height < col_y (fst (MatrixColumn_update rnd k dt height c))"
      by (simp only: eq lo)
    show "col_y (fst (MatrixColumn_update rnd k dt height c)) \<le> 0"
      by (simp only: eq hi)
  next
    show "- height < col_y (fst (MatrixColumn_updates rnd k' dts height
                        (fst (MatrixColumn_new rnd k0 x height))))"
      using run by blast
    show "col_y (fst (MatrixColumn_updates rnd k' dts height (fst (MatrixColumn_new rnd k0 x height))))
         \<le> height + 100"
      using run by blast
  qed
qed

theorem column_y_range_witness:
  "col_y (fst (MatrixColumn_update rnd_half 2 1 768 (fst (MatrixColumn_new rnd_half 0 0 768))))
     = - 259
   \<and> col_y (fst (MatrixColumn_update rnd_half 2 11 768 (fst (MatrixColumn_new rnd_half 0 0 768))))
     = - 384
   \<and> - 768 < col_y (fst (MatrixColumn_updates rnd_half 2 [1, 11, 1 / 60] 768
                      (fst (MatrixColumn_new rnd_half 0 0 768))))
   \<and> col_y (fst (MatrixColumn_updates rnd_half 2 [1, 11, 1 / 60] 768
                (fst (MatrixColumn_new rnd_half 0 0 768)))) \<le> 868"
proof -
  have v: "valid_random rnd_half"
    by (simp add: valid_random_def rnd_half_def)
  have h: "0 < (768 :: real)" and d1: "0 \<le> (1 :: real)" and d11: "0 \<le> (11 :: real)"
    by simp_all
  have d: "\<forall>d \<in> set [1, 11, 1 / 60 :: real]. 0 \<le> d"
    by simp
  show ?thesis
    using column_y_range [OF v h d1 d, where c = "fst (MatrixColumn_new rnd_half 0 0 768)"
        and k = 2 and k' = 2 and k0 = 0 and x = 0]
      column_y_range [OF v h d11 d, where c = "fst (MatrixColumn_new rnd_half 0 0 768)"
        and k = 2 and k' = 2 and k0 = 0 and x = 0]
    by (simp add: MatrixColumn_new_def rnd_half_def)
qed

subsection \<open>C8: the number of rain columns\<close>

text \<open>
  Claim C8. After \<^verbatim>\<open>MatrixRainSystem.reset(width, height)\<close> with \<open>width > 0\<close> the number
  of columns is \<open>ceil(width / 16)\<close>, one column per 16 pixels across the width (64 columns
  for a width of 1024), and no sequence of later calls of \<^verbatim>\<open>update\<close>, whatever their
  arguments, changes the number of columns.
\<close>

theorem reset_column_count:
  "0 < width \<Longrightarrow>
     int (length (columns (fst (MatrixRainSystem_reset rnd k width height m)))) = \<lceil>width / 16\<rceil>
     \<and> length (columns (fst (MatrixRainSystem_updates rnd k' calls
                (fst (MatrixRainSystem_reset rnd k width height m)))))
       = length (columns (fst (MatrixRainSystem_reset rnd k width height m)))"
proof
  assume w: "0 < width"
  have "length (columns (fst (MatrixRainSystem_reset rnd k width height m)))
        = nat \<lceil>width / 16\<rceil>"
    using length_reset_loop [of rnd k 0 width height "[]"]
    by (simp add: MatrixRainSystem_reset_def unfolds)
  moreover have "0 \<le> \<lceil>width / 16\<rceil>"
    using w by simp
  ultimately show "int (length (columns (fst (MatrixRainSystem_reset rnd k width height m))))
      = \<lceil>width / 16\<rceil>"
    by simp
next
  show "length (columns (fst (MatrixRainSystem_updates rnd k' calls
                (fst (MatrixRainSystem_reset rnd k width height m)))))
       = length (columns (fst (MatrixRainSystem_reset rnd k width height m)))"
    by (rule length_MatrixRainSystem_updates)
qed

theorem reset_column_count_witness:
  "0 < (1024 :: real)
   \<and> int (length (columns (fst (MatrixRainSystem_reset rnd_half 0 1024 768 \<lparr>columns = []\<rparr>)))) = 64
   \<and> length (columns (fst (MatrixRainSystem_updates rnd_half 128 [(1 / 60, 1024, 768)]
                (fst (MatrixRainSystem_reset rnd_half 0 1024 768 \<lparr>columns = []\<rparr>)))))
       = length (columns (fst (MatrixRainSystem_reset rnd_half 0 1024 768 \<lparr>columns = []\<rparr>)))"
  using reset_column_count [of 1024 rnd_half 0 768 "\<lparr>columns = []\<rparr>" 128 "[(1 / 60, 1024, 768)]"]
  by simp

subsection \<open>C9: a new layout and the old nodes\<close>

text \<open>
  Claim C9. After \<^verbatim>\<open>setupLayout\<close> every node of \<^verbatim>\<open>network.nodes\<close> is a new object,
  with highlight 0, and none of the nodes from before is among them. The objects from
  before are unchanged (position and highlight), the packets, the active collection and
  the hack events are unchanged, hence they still refer to the old nodes, and the point
  at which a packet between old nodes is drawn is the same as before. The resize
  listeners change the nodes, the packets and the hack events as \<^verbatim>\<open>setupLayout\<close> alone
  does.
\<close>

theorem relayout_keeps_old_objects:
  "(\<forall>r \<in> set (nodes (network (setupLayout width height w))).
        length (node_heap w) \<le> r \<and> r < length (node_heap (setupLayout width height w))
        \<and> hackedAlpha (node_heap (setupLayout width height w) ! r) = 0)
   \<and> (\<forall>r < length (node_heap w). node_heap (setupLayout width height w) ! r = node_heap w ! r)
   \<and> packet_heap (setupLayout width height w) = packet_heap w
   \<and> packets (network (setupLayout width height w)) = packets (network w)
   \<and> hacks (setupLayout width height w) = hacks w
   \<and> (link_from (pkt_link p) = Some a \<and> a < length (node_heap w)
        \<and> link_to (pkt_link p) = Some b \<and> b < length (node_heap w) \<longrightarrow>
        Packet_position (setupLayout width height w) p = Packet_position w p)
   \<and> node_heap (on_resize rnd width height w) = node_heap (setupLayout width height w)
   \<and> network (on_resize rnd width height w) = network (setupLayout width height w)
   \<and> packet_heap (on_resize rnd width height w) = packet_heap w
   \<and> hacks (on_resize rnd width height w) = hacks w"
proof (intro conjI ballI allI impI)
  fix r assume "r \<in> set (nodes (network (setupLayout width height w)))"
  then have "r \<in> (\<lambda>i. length (node_heap w) + i) ` {0, 1, 2, 3, 4, 5, 6, 7, 8}"
    by (simp add: nodes_setupLayout)
  then obtain i where i: "r = length (node_heap w) + i" "i < 9"
    by auto
  show "length (node_heap w) \<le> r"
    using i by simp
  show "r < length (node_heap (setupLayout width height w))"
    using i by (simp add: node_heap_setupLayout layout_nodes_def Let_def)
  have "\<forall>n \<in> set (layout_nodes width height). hackedAlpha n = 0"
    by (simp add: layout_nodes_def Node_new_def Let_def)
  moreover have "i < length (layout_nodes width height)"
    using i by (simp add: layout_nodes_def Let_def)
  ultimately show "hackedAlpha (node_heap (setupLayout width height w) ! r) = 0"
    using i(1) by (simp add: node_heap_setupLayout)
next
  fix r assume "r < length (node_heap w)"
  then show "node_heap (setupLayout width height w) ! r = node_heap w ! r"
    by (simp add: node_heap_setupLayout nth_append)
next
  show "packet_heap (setupLayout width height w) = packet_heap w"
    "packets (network (setupLayout width height w)) = packets (network w)"
    "hacks (setupLayout width height w) = hacks w"
    by (simp_all add: other_setupLayout)
next
  assume "link_from (pkt_link p) = Some a \<and> a < length (node_heap w)
        \<and> link_to (pkt_link p) = Some b \<and> b < length (node_heap w)"
  then show "Packet_position (setupLayout width height w) p = Packet_position w p"
    by (intro Packet_position_cong [of p a b]) (simp_all add: node_heap_setupLayout nth_append)
next
  show "node_heap (on_resize rnd width height w) = node_heap (setupLayout width height w)"
    "network (on_resize rnd width height w) = network (setupLayout width height w)"
    "packet_heap (on_resize rnd width height w) = packet_heap w"
    "hacks (on_resize rnd width height w) = hacks w"
    by (simp_all add: on_resize_eq setupLayout_eq)
qed

theorem relayout_keeps_old_objects_witness:
  "nodes (network (setupLayout 800 600 world2)) = [9, 10, 11, 12, 13, 14, 15, 16, 17]
   \<and> hackedAlpha (node_heap (setupLayout 800 600 world2) ! 14) = 0
   \<and> node_heap (setupLayout 800 600 world2) ! 5 = node_heap world2 ! 5
   \<and> Packet_position (setupLayout 800 600 world2) (packet_heap world2 ! 4)
     = Inr (576 / 25, 104 / 5)
   \<and> he_target (hd (events (hacks (on_resize rnd_half 800 600 world2)))) = Some 5"
proof -
  have n: "nodes (network (setupLayout 800 600 world2)) = [9, 10, 11, 12, 13, 14, 15, 16, 17]"
    by (simp add: nodes_setupLayout world2_def)
  have l: "(5 :: nat) < length (node_heap world2)"
    by (simp add: world2_def)
  have p: "link_from (pkt_link (packet_heap world2 ! 4)) = Some 0 \<and> 0 < length (node_heap world2)
      \<and> link_to (pkt_link (packet_heap world2 ! 4)) = Some 5 \<and> 5 < length (node_heap world2)"
    by (simp add: world2_def)
  have pos: "Packet_position world2 (packet_heap world2 ! 4) = Inr (576 / 25, 104 / 5)"
    by (simp add: Packet_position_def world2_def lerp_def)
  have ev: "he_target (hd (events (hacks world2))) = Some 5"
    by (simp add: world2_def)
  show ?thesis
    using relayout_keeps_old_objects [of 800 600 world2 "packet_heap world2 ! 4" 0 5 rnd_half]
      n l p pos ev
    by simp
qed

subsection \<open>C10: the first frame\<close>

text \<open>
  Claim C10. After the start the spawn timer of the code chunks, the timer of the
  background traffic and the cooldown of the hack system are all 0. So the first call of
  \<^verbatim>\<open>update(dt)\<close>, for any \<open>dt \<ge> 0\<close> on a canvas whose width is not negative, raises
  nothing and spawns at once: after it there is one code chunk; two packets have been
  constructed, one from the router to a node that is neither the router nor the hacker
  and one back, both advanced by this very call and in the active collection unless
  \<open>dt\<close> was long enough to finish them; and there is one hack event, in \<^verbatim>\<open>prepare\<close> or
  already in \<^verbatim>\<open>launch\<close>, that has not constructed its packet yet.
\<close>

theorem first_update_spawns:
  assumes "valid_random rnd" and "0 \<le> dt" and "0 \<le> width"
  shows "timer (codeChunks (start rnd width height)) = 0
     \<and> normalTrafficTimer (network (start rnd width height)) = 0
     \<and> cooldown (hacks (start rnd width height)) = 0
     \<and> (\<exists>w' c p1 p2 rt tg e.
          update rnd dt (start rnd width height) = Inr w'
          \<and> chunks (codeChunks w') = [c]
          \<and> packet_heap w' = [p1, p2]
          \<and> pkt_link p1 = \<lparr>link_from = Some rt, link_to = Some tg\<rparr>
          \<and> pkt_link p2 = \<lparr>link_from = Some tg, link_to = Some rt\<rparr>
          \<and> pkt_t p1 = pkt_speed p1 * dt / 1000 \<and> pkt_t p2 = pkt_speed p2 * dt / 1000
          \<and> node_id (node_heap w' ! rt) = ''router''
          \<and> node_id (node_heap w' ! tg) \<noteq> ''router'' \<and> node_id (node_heap w' ! tg) \<noteq> ''hacker''
          \<and> packets (network w') = filter (\<lambda>r. pkt_t (packet_heap w' ! r) < 1) [0, 1]
          \<and> events (hacks w') = [e]
          \<and> (he_state e = prepare \<or> he_state e = launch) \<and> he_packet e = None)"
proof -
  let ?w0 = "start rnd width height"
  have zero: "timer (codeChunks ?w0) = 0" "normalTrafficTimer (network ?w0) = 0"
    "cooldown (hacks ?w0) = 0"
    by (simp_all add: start_eq CodeChunkSystem_new_def HackSystem_new_def)
  define m where "m = MatrixRainSystem_update rnd (rng ?w0) dt (canvas_width ?w0)
      (canvas_height ?w0) (matrix ?w0)"
  define cs where "cs = CodeChunkSystem_update rnd (snd m) dt (canvas_width ?w0)
      (canvas_height ?w0) (codeChunks ?w0)"
  define w1 where "w1 = ?w0\<lparr>matrix := fst m, codeChunks := fst cs, rng := snd cs\<rparr>"
  have cs: "cs = CodeChunkSystem_update rnd (snd m) dt width height CodeChunkSystem_new"
    by (simp add: cs_def start_eq)
  obtain c where c: "chunks (fst cs) = [c]"
    unfolding cs using first_chunk [OF assms(2,3)] by blast
  have f1: "node_heap w1 = node_heap ?w0" "packet_heap w1 = []" "network w1 = network ?w0"
    "hacks w1 = HackSystem_new" "codeChunks w1 = fst cs" "packets (network w1) = []"
    "normalTrafficTimer (network w1) = 0"
    by (simp_all add: w1_def start_eq)
  have c1: "core_inv w1"
    using core_inv_start [of rnd width height] core_inv_cong [of w1 ?w0]
    by (simp add: f1 start_eq)
  obtain w2 p1 p2 rt tg where 2: "NodeNetworkSystem_update rnd dt w1 = Inr w2" "core_inv w2"
    "packet_heap w2 = [p1, p2]"
    "pkt_link p1 = \<lparr>link_from = Some rt, link_to = Some tg\<rparr>"
    "pkt_link p2 = \<lparr>link_from = Some tg, link_to = Some rt\<rparr>"
    "pkt_t p1 = pkt_speed p1 * dt / 1000" "pkt_t p2 = pkt_speed p2 * dt / 1000"
    "node_id (node_heap w2 ! rt) = ''router''"
    "node_id (node_heap w2 ! tg) \<noteq> ''router''" "node_id (node_heap w2 ! tg) \<noteq> ''hacker''"
    "packets (network w2) = filter (\<lambda>r. pkt_t (packet_heap w2 ! r) < 1) [0, 1]"
    "hacks w2 = hacks w1" "codeChunks w2 = codeChunks w1"
    using first_traffic [OF c1 assms(1,2) f1(7,6,2)] by blast
  have new2: "hacks w2 = HackSystem_new"
    using 2(12) f1(4) by simp
  obtain w3 e where 3: "HackSystem_update rnd dt w2 = Inr w3" "events (hacks w3) = [e]"
    "he_state e = prepare \<or> he_state e = launch" "he_packet e = None"
    "packet_heap w3 = packet_heap w2" "network w3 = network w2" "codeChunks w3 = codeChunks w2"
    "\<forall>r. node_id (node_heap w3 ! r) = node_id (node_heap w2 ! r)"
    using first_hack [OF 2(2) assms(1,2) new2] by blast
  have res: "update rnd dt ?w0 = Inr w3"
    unfolding update_def Let_def case_prod_unfold m_def [symmetric] cs_def [symmetric]
      w1_def [symmetric]
    by (simp add: 2(1) 3(1))
  have "\<exists>w' c p1 p2 rt tg e.
          update rnd dt ?w0 = Inr w'
          \<and> chunks (codeChunks w') = [c]
          \<and> packet_heap w' = [p1, p2]
          \<and> pkt_link p1 = \<lparr>link_from = Some rt, link_to = Some tg\<rparr>
          \<and> pkt_link p2 = \<lparr>link_from = Some tg, link_to = Some rt\<rparr>
          \<and> pkt_t p1 = pkt_speed p1 * dt / 1000 \<and> pkt_t p2 = pkt_speed p2 * dt / 1000
          \<and> node_id (node_heap w' ! rt) = ''router''
          \<and> node_id (node_heap w' ! tg) \<noteq> ''router'' \<and> node_id (node_heap w' ! tg) \<noteq> ''hacker''
          \<and> packets (network w') = filter (\<lambda>r. pkt_t (packet_heap w' ! r) < 1) [0, 1]
          \<and> events (hacks w') = [e]
          \<and> (he_state e = prepare \<or> he_state e = launch) \<and> he_packet e = None"
    using res c 2 3 f1(5)
    by (intro exI [of _ w3] exI [of _ c] exI [of _ p1] exI [of _ p2] exI [of _ rt] exI [of _ tg]
        exI [of _ e]) simp
  with zero show ?thesis
    by blast
qed

theorem first_update_spawns_witness:
  "timer (codeChunks (start rnd_half 32 32)) = 0
   \<and> length (chunks (codeChunks world1)) = 1
   \<and> map pkt_link (packet_heap world1)
     = [\<lparr>link_from = Some 4, link_to = Some 5\<rparr>, \<lparr>link_from = Some 5, link_to = Some 4\<rparr>]
   \<and> packets (network world1) = [0, 1]
   \<and> length (events (hacks world1)) = 1"
proof -
  have "0 \<le> (1 :: real)" and "0 \<le> (32 :: real)"
    by simp_all
  from first_update_spawns [OF valid_random_half this, of 32]
  have "timer (codeChunks (start rnd_half 32 32)) = 0"
    and "\<exists>c p1 p2 e. chunks (codeChunks world1) = [c] \<and> packet_heap world1 = [p1, p2]
      \<and> events (hacks world1) = [e]"
    unfolding frame1 by auto
  then show ?thesis
    by (simp add: world1_def)
qed

end
